theory Spec2Isabelle
  imports Main "HOL-Library.Sublist"
begin

section \<open>JavaScript values\<close>

text \<open>
  The two methods of the class \<^verbatim>\<open>DataFetcher\<close>, \<^verbatim>\<open>fetchSymbolData\<close> and \<^verbatim>\<open>writeDataToCSV\<close>,
  handle candle data typed \<^verbatim>\<open>any[]\<close>, and
  the fetcher inspects the shape of what it receives (\<^verbatim>\<open>Array.isArray\<close>, \<^verbatim>\<open>typeof\<close>), so the
  model keeps JavaScript's dynamic values.

  A number is modelled by its decimal notation: \<open>Dec m e\<close> stands for \<open>m / 10 ^ e\<close>
  (\<open>100.5\<close> is \<open>Dec 1005 1\<close>), next to the three non-finite numbers. Arithmetic on \<open>Dec\<close>
  is exact; a double agrees with it on the integers up to \<open>2 ^ 53\<close>, which covers every
  time value a \<^verbatim>\<open>Date\<close> accepts. Symbols, BigInts and objects with behaviour of their own are
  left out; \<open>JObject\<close> is a plain object.
\<close>

datatype jsnum = NaN | PosInf | NegInf | Dec int nat

datatype jsval =
    JUndefined
  | JNull
  | JBool bool
  | JNumber jsnum
  | JString string
  | JArray "jsval list"
  | JObject

text \<open>\<^verbatim>\<open>x + 1\<close> on a number.\<close>

fun num_add1 :: "jsnum \<Rightarrow> jsnum" where
  "num_add1 (Dec m e) = Dec (m + 10 ^ e) e"
| "num_add1 NaN = NaN"
| "num_add1 PosInf = PosInf"
| "num_add1 NegInf = NegInf"

text \<open>\<^verbatim>\<open>x < y\<close> and \<^verbatim>\<open>x <= y\<close> on numbers: every comparison with \<^verbatim>\<open>NaN\<close> is false.\<close>

fun num_less :: "jsnum \<Rightarrow> jsnum \<Rightarrow> bool" where
  "num_less NaN y = False"
| "num_less x NaN = False"
| "num_less x NegInf = False"
| "num_less PosInf y = False"
| "num_less NegInf y = True"
| "num_less x PosInf = True"
| "num_less (Dec m1 e1) (Dec m2 e2) = (m1 * 10 ^ e2 < m2 * 10 ^ e1)"

fun num_le :: "jsnum \<Rightarrow> jsnum \<Rightarrow> bool" where
  "num_le NaN y = False"
| "num_le x NaN = False"
| "num_le NegInf y = True"
| "num_le x PosInf = True"
| "num_le x NegInf = False"
| "num_le PosInf y = False"
| "num_le (Dec m1 e1) (Dec m2 e2) = (m1 * 10 ^ e2 \<le> m2 * 10 ^ e1)"

text \<open>Truthiness, as \<^verbatim>\<open>if (v)\<close>, \<^verbatim>\<open>!v\<close>, \<^verbatim>\<open>a || b\<close> and \<^verbatim>\<open>a && b\<close> test it.\<close>

fun num_truthy :: "jsnum \<Rightarrow> bool" where
  "num_truthy NaN = False"
| "num_truthy (Dec m e) = (m \<noteq> 0)"
| "num_truthy PosInf = True"
| "num_truthy NegInf = True"

fun truthy :: "jsval \<Rightarrow> bool" where
  "truthy JUndefined = False"
| "truthy JNull = False"
| "truthy (JBool b) = b"
| "truthy (JNumber n) = num_truthy n"
| "truthy (JString s) = (s \<noteq> [])"
| "truthy (JArray xs) = True"
| "truthy JObject = True"

fun isArray :: "jsval \<Rightarrow> bool" where
  "isArray (JArray xs) = True"
| "isArray v = False"

text \<open>\<^verbatim>\<open>v.length\<close> and \<^verbatim>\<open>v[0]\<close>, read only where \<^verbatim>\<open>Array.isArray(v)\<close> has held.\<close>

fun arrayLength :: "jsval \<Rightarrow> nat" where
  "arrayLength (JArray xs) = length xs"
| "arrayLength v = 0"

fun arrayFirst :: "jsval \<Rightarrow> jsval" where
  "arrayFirst (JArray (x # xs)) = x"
| "arrayFirst v = JUndefined"

text \<open>
  An exception is an \<^verbatim>\<open>Error\<close> object: the name of its class and its message, the two
  fields the \<^verbatim>\<open>catch\<close> blocks read. A thrown \<^verbatim>\<open>undefined\<close> or \<^verbatim>\<open>null\<close>, which has no fields
  to read, is left out.
\<close>

datatype js_error = Error (errorName: string) (errorMessage: string)

subsection \<open>Dates\<close>

text \<open>
  \<^verbatim>\<open>new Date(n)\<close> for a number \<open>n\<close> holds the time value \<^verbatim>\<open>TimeClip(n)\<close>: \<open>None\<close> (an
  invalid date) when \<open>n\<close> is not finite or beyond 8.64e15 milliseconds from the epoch,
  and \<open>n\<close> truncated towards zero otherwise.
\<close>

fun timeClip :: "jsnum \<Rightarrow> int option" where
  "timeClip (Dec m e) =
     (if \<bar>m\<bar> > 8640000000000000 * 10 ^ e then None
      else Some (sgn m * (\<bar>m\<bar> div 10 ^ e)))"
| "timeClip x = None"

text \<open>\<^verbatim>\<open>toISOString()\<close> throws a \<^verbatim>\<open>RangeError\<close> on an invalid date.\<close>

definition rangeError :: js_error where
  "rangeError = Error ''RangeError'' ''Invalid time value''"

definition toISOStringThrows :: "jsnum \<Rightarrow> bool" where
  "toISOStringThrows n = (timeClip n = None)"

section \<open>The symbol resolver\<close>

text \<open>
  \<^verbatim>\<open>s.replace(pat, rep)\<close> with a string pattern replaces the first occurrence of \<open>pat\<close>
  only (\<open>rep\<close> holds no \<^verbatim>\<open>$\<close> here).
\<close>

fun js_replace :: "string \<Rightarrow> string \<Rightarrow> string \<Rightarrow> string" where
  "js_replace [] pat rep = (if pat = [] then rep else [])"
| "js_replace (c # cs) pat rep =
     (if prefix pat (c # cs) then rep @ drop (length pat) (c # cs)
      else c # js_replace cs pat rep)"

text \<open>
  The market catalog is the object \<^verbatim>\<open>loadMarkets()\<close> returns. Its own properties go from
  symbol to the market's metadata (an object, so truthy) and are the map \<open>markets\<close>. It is
  a plain object, so a property read \<^verbatim>\<open>markets[k]\<close> that finds no own property goes on to
  \<^verbatim>\<open>Object.prototype\<close>, whose properties are the names below: methods, and \<^verbatim>\<open>__proto__\<close>,
  which reads as \<^verbatim>\<open>Object.prototype\<close> itself. All of them are truthy.
\<close>

definition objectPrototypeNames :: "string list" where
  "objectPrototypeNames =
     [''constructor'', ''__defineGetter__'', ''__defineSetter__'', ''hasOwnProperty'',
      ''__lookupGetter__'', ''__lookupSetter__'', ''isPrototypeOf'', ''propertyIsEnumerable'',
      ''toString'', ''valueOf'', ''__proto__'', ''toLocaleString'']"

text \<open>Whether \<^verbatim>\<open>markets[k]\<close> is truthy.\<close>

definition truthyProperty :: "(string \<rightharpoonup> 'm) \<Rightarrow> string \<Rightarrow> bool" where
  "truthyProperty markets k = (markets k \<noteq> None \<or> k \<in> set objectPrototypeNames)"

text \<open>
  Lines 83 to 99 of \<^verbatim>\<open>fetchSymbolData\<close>: \<open>Some\<close> of the symbol to fetch with, or \<open>None\<close>
  where the source returns \<^verbatim>\<open>[]\<close>.
\<close>

definition symbolVariants :: "string \<Rightarrow> string list" where
  "symbolVariants symbol =
     [symbol, js_replace symbol ''/'' ''-'', js_replace symbol ''/'' ''_'']"

definition resolveSymbol :: "(string \<rightharpoonup> 'm) \<Rightarrow> string \<Rightarrow> string option" where
  "resolveSymbol markets symbol =
     (if truthyProperty markets symbol then Some symbol
      else
        (case find (truthyProperty markets) (symbolVariants symbol) of
           Some foundSymbol \<Rightarrow> if foundSymbol \<noteq> [] then Some foundSymbol else None
         | None \<Rightarrow> None))"

section \<open>The paginated candle fetcher\<close>

text \<open>
  The exchange adapter is the external collaborator: a state of its own (\<open>'s\<close>: the
  exchange, the network, the clock) and the two calls the fetcher makes, each returning
  what it resolves to or the error it rejects with, and the adapter's next state.
\<close>

record ('s, 'm) adapter =
  loadMarkets :: "'s \<Rightarrow> (js_error + (string \<rightharpoonup> 'm)) \<times> 's"
  fetchOHLCV :: "'s \<Rightarrow> string \<Rightarrow> string \<Rightarrow> jsnum \<Rightarrow> jsnum \<Rightarrow> (js_error + jsval list) \<times> 's"

text \<open>
  The variables of the loop, the adapter's state, and the list of the \<^verbatim>\<open>fetchOHLCV\<close> calls
  issued so far (symbol, timeframe, since, limit), which is how the model observes the
  requests.
\<close>

record 's loop_state =
  allData :: "jsval list"
  currentSince :: jsnum
  totalRequests :: nat
  adapterState :: 's
  calls :: "(string \<times> string \<times> jsnum \<times> jsnum) list"

datatype 's loop_step = Continue "'s loop_state" | Break "'s loop_state" | Throw js_error "'s loop_state"

text \<open>
  One turn of \<^verbatim>\<open>while (true)\<close>, lines 111 to 153. The message of \<^verbatim>\<open>logger.debug\<close> on line
  113 is built whatever the log level, and building it calls \<^verbatim>\<open>toISOString()\<close> on the
  cursor. The one-second delay before every request but the first takes time and changes
  nothing else. A page is taken to be an array short enough for \<^verbatim>\<open>push(...ohlcv)\<close> to pass
  its elements as arguments. What the logger writes is not part of the model.
\<close>

definition loopBody :: "('s, 'm) adapter \<Rightarrow> string \<Rightarrow> jsnum \<Rightarrow> 's loop_state \<Rightarrow> 's loop_step" where
  "loopBody ex symbol limit st =
     (let st1 = st\<lparr>totalRequests := totalRequests st + 1\<rparr> in
      if toISOStringThrows (currentSince st1) then Throw rangeError st1
      else
        (case fetchOHLCV ex (adapterState st1) symbol ''1d'' (currentSince st1) limit of
           (Inl e, s') \<Rightarrow>
             Throw e (st1\<lparr>adapterState := s',
                          calls := calls st1 @ [(symbol, ''1d'', currentSince st1, limit)]\<rparr>)
         | (Inr ohlcv, s') \<Rightarrow>
             (let st2 = st1\<lparr>adapterState := s',
                             calls := calls st1 @ [(symbol, ''1d'', currentSince st1, limit)]\<rparr>
              in
              if length ohlcv = 0 then Break st2
              else
                (let st3 = st2\<lparr>allData := allData st2 @ ohlcv\<rparr>;
                     lastEntry = ohlcv ! (length ohlcv - 1)
                 in
                 if truthy lastEntry \<and> isArray lastEntry \<and> arrayLength lastEntry > 0 then
                   (case arrayFirst lastEntry of
                      JNumber lastTimestamp \<Rightarrow>
                        (let st4 = st3\<lparr>currentSince := num_add1 lastTimestamp\<rparr> in
                         if num_less (Dec (int (length ohlcv)) 0) limit then Break st4
                         else Continue st4)
                    | _ \<Rightarrow> Break st3)
                 else Break st3))))"

text \<open>
  The loop itself. It need not end (an adapter may return full pages for ever), so not
  returning is the value \<open>None\<close>.
\<close>

partial_function (option) fetchLoop ::
  "('s, 'm) adapter \<Rightarrow> string \<Rightarrow> jsnum \<Rightarrow> 's loop_state \<Rightarrow> (js_error \<times> 's loop_state + 's loop_state) option" where
  "fetchLoop ex symbol limit st =
     (case loopBody ex symbol limit st of
        Continue st' \<Rightarrow> fetchLoop ex symbol limit st'
      | Break st' \<Rightarrow> Some (Inr st')
      | Throw e st' \<Rightarrow> Some (Inl (e, st')))"

text \<open>The state after \<open>n\<close> turns that all went on to the next (\<open>None\<close> if the loop left earlier).\<close>

fun turns :: "('s, 'm) adapter \<Rightarrow> string \<Rightarrow> jsnum \<Rightarrow> nat \<Rightarrow> 's loop_state \<Rightarrow> 's loop_state option" where
  "turns ex symbol limit 0 st = Some st"
| "turns ex symbol limit (Suc n) st =
     (case loopBody ex symbol limit st of
        Continue st' \<Rightarrow> turns ex symbol limit n st'
      | Break st' \<Rightarrow> None
      | Throw e st' \<Rightarrow> None)"

text \<open>
  What a call of \<^verbatim>\<open>fetchSymbolData\<close> comes to: the array it resolves to or the error it
  rejects with, the requests it issued, and the state it leaves the adapter in.
\<close>

record 's fetch_outcome =
  returned :: "js_error + jsval list"
  requests :: "(string \<times> string \<times> jsnum \<times> jsnum) list"
  adapterAfter :: 's

definition defaultStart :: jsnum where
  "defaultStart = Dec 1577836800000 0"

definition startDateOf :: "jsnum option \<Rightarrow> jsnum" where
  "startDateOf since =
     (case since of
        None \<Rightarrow> defaultStart
      | Some n \<Rightarrow> if num_truthy n then n else defaultStart)"

definition limitOf :: "jsnum option \<Rightarrow> jsnum" where
  "limitOf limitArg = (case limitArg of None \<Rightarrow> Dec 100 0 | Some l \<Rightarrow> l)"

text \<open>Lines 107 to 109: the loop's variables before its first turn.\<close>

definition initialState :: "jsnum \<Rightarrow> 's \<Rightarrow> 's loop_state" where
  "initialState startDate s1 =
     \<lparr>allData = [], currentSince = startDate, totalRequests = 0, adapterState = s1, calls = []\<rparr>"

definition loopOutcome :: "js_error \<times> 's loop_state + 's loop_state \<Rightarrow> 's fetch_outcome" where
  "loopOutcome r =
     (case r of
        Inr st \<Rightarrow> \<lparr>returned = Inr (allData st), requests = calls st, adapterAfter = adapterState st\<rparr>
      | Inl (e, st) \<Rightarrow> \<lparr>returned = Inl e, requests = calls st, adapterAfter = adapterState st\<rparr>)"

text \<open>
  \<^verbatim>\<open>fetchSymbolData(symbol, since?, limit = 100)\<close>, lines 73 to 184. \<open>since\<close> and \<open>limit\<close>
  are \<open>None\<close> when the argument is left out. The \<^verbatim>\<open>catch\<close> block logs and throws the error
  it caught, so every \<open>Inl\<close> below passes through it unchanged. The default start is
  \<^verbatim>\<open>new Date('2020-01-01').getTime()\<close>, midnight UTC.
\<close>

definition fetchSymbolData ::
  "('s, 'm) adapter \<Rightarrow> 's \<Rightarrow> string \<Rightarrow> jsnum option \<Rightarrow> jsnum option \<Rightarrow> 's fetch_outcome option" where
  "fetchSymbolData ex s0 symbol since limitArg =
     (let limit = limitOf limitArg in
      case loadMarkets ex s0 of
        (Inl e, s1) \<Rightarrow> Some \<lparr>returned = Inl e, requests = [], adapterAfter = s1\<rparr>
      | (Inr markets, s1) \<Rightarrow>
          (case resolveSymbol markets symbol of
             None \<Rightarrow> Some \<lparr>returned = Inr [], requests = [], adapterAfter = s1\<rparr>
           | Some symbol' \<Rightarrow>
               (let startDate = startDateOf since in
                if toISOStringThrows startDate
                then Some \<lparr>returned = Inl rangeError, requests = [], adapterAfter = s1\<rparr>
                else
                  map_option loopOutcome
                    (fetchLoop ex symbol' limit (initialState startDate s1)))))"

section \<open>The CSV writer\<close>

subsection \<open>Strings of values\<close>

text \<open>
  A template literal converts each value it interpolates with \<^verbatim>\<open>ToString\<close>. On a number
  that is \<^verbatim>\<open>Number::toString\<close> of ECMAScript: with \<open>s\<close> the digits of the number without
  trailing zeros, \<open>k\<close> how many they are and \<open>n\<close> the position of the decimal point, plain
  notation for \<open>-6 < n \<le> 21\<close> and exponent notation otherwise.
\<close>

fun natDigits :: "nat \<Rightarrow> string" where
  "natDigits n =
     (if n < 10 then [''0123456789'' ! n]
      else natDigits (n div 10) @ [''0123456789'' ! (n mod 10)])"

fun trailingZeros :: "nat \<Rightarrow> nat" where
  "trailingZeros n = (if n = 0 \<or> n mod 10 \<noteq> 0 then 0 else Suc (trailingZeros (n div 10)))"

declare natDigits.simps [simp del]
declare trailingZeros.simps [simp del]

text \<open>The digits \<open>s\<close> of \<open>m / 10 ^ e\<close> and the position \<open>n\<close> of its decimal point.\<close>

definition decDigits :: "int \<Rightarrow> string" where
  "decDigits m = natDigits (nat \<bar>m\<bar> div 10 ^ trailingZeros (nat \<bar>m\<bar>))"

definition pointPosition :: "int \<Rightarrow> nat \<Rightarrow> int" where
  "pointPosition m e = int (length (decDigits m)) + int (trailingZeros (nat \<bar>m\<bar>)) - int e"

definition exponentForm :: "string \<Rightarrow> int \<Rightarrow> string" where
  "exponentForm s n =
     (if length s = 1 then s else take 1 s @ ''.'' @ drop 1 s) @ ''e'' @
     (if n - 1 < 0 then ''-'' else ''+'') @ natDigits (nat \<bar>n - 1\<bar>)"

definition placePoint :: "string \<Rightarrow> int \<Rightarrow> string" where
  "placePoint s n =
     (if int (length s) \<le> n \<and> n \<le> 21 then s @ replicate (nat (n - int (length s))) (CHR ''0'')
      else if 0 < n \<and> n \<le> 21 then take (nat n) s @ ''.'' @ drop (nat n) s
      else if - 6 < n \<and> n \<le> 0 then ''0.'' @ replicate (nat (- n)) (CHR ''0'') @ s
      else exponentForm s n)"

definition decToString :: "int \<Rightarrow> nat \<Rightarrow> string" where
  "decToString m e =
     (if m = 0 then ''0''
      else (if m < 0 then ''-'' else []) @ placePoint (decDigits m) (pointPosition m e))"

fun numberToString :: "jsnum \<Rightarrow> string" where
  "numberToString NaN = ''NaN''"
| "numberToString PosInf = ''Infinity''"
| "numberToString NegInf = ''-Infinity''"
| "numberToString (Dec m e) = decToString m e"

text \<open>
  \<^verbatim>\<open>ToString\<close> on any value; an array joins its elements with commas, an undefined or
  null element giving the empty string.
\<close>

fun toStringJs :: "jsval \<Rightarrow> string" and joinElements :: "jsval list \<Rightarrow> string" where
  "toStringJs JUndefined = ''undefined''"
| "toStringJs JNull = ''null''"
| "toStringJs (JBool b) = (if b then ''true'' else ''false'')"
| "toStringJs (JNumber n) = numberToString n"
| "toStringJs (JString s) = s"
| "toStringJs (JArray xs) = joinElements xs"
| "toStringJs JObject = ''[object Object]''"
| "joinElements [] = []"
| "joinElements (x # xs) =
     (if x = JUndefined \<or> x = JNull then [] else toStringJs x) @
     (if xs = [] then [] else '','' @ joinElements xs)"

text \<open>\<^verbatim>\<open>s.padStart(n, c)\<close> for a one-character \<open>c\<close>.\<close>

definition padStart :: "nat \<Rightarrow> char \<Rightarrow> string \<Rightarrow> string" where
  "padStart n c s = replicate (n - length s) c @ s"

subsection \<open>Calendar dates\<close>

text \<open>
  What the runtime decides and the source does not: the offset of local time from UTC at
  an instant (\<^verbatim>\<open>LocalTZA\<close>, in milliseconds), and how \<^verbatim>\<open>Date\<close> parses a string.
\<close>

record js_env =
  localTZA :: "int \<Rightarrow> int"
  dateParse :: "string \<Rightarrow> jsnum"

text \<open>\<^verbatim>\<open>new Date(v)\<close>: the time value of the date, \<open>None\<close> for an invalid date.\<close>

fun newDate :: "js_env \<Rightarrow> jsval \<Rightarrow> int option" where
  "newDate env (JNumber n) = timeClip n"
| "newDate env JUndefined = None"
| "newDate env JNull = Some 0"
| "newDate env (JBool b) = Some (if b then 1 else 0)"
| "newDate env (JString s) = timeClip (dateParse env s)"
| "newDate env (JArray xs) = timeClip (dateParse env (toStringJs (JArray xs)))"
| "newDate env JObject = timeClip (dateParse env ''[object Object]'')"

text \<open>
  Year, month (from 1) and day of the month of a day counted from 1970-01-01, in the
  proleptic Gregorian calendar, as \<^verbatim>\<open>YearFromTime\<close>, \<^verbatim>\<open>MonthFromTime\<close> and \<^verbatim>\<open>DateFromTime\<close> of
  ECMAScript give them. The year and the day within it are found by stepping from 1970
  over whole years, of \<^verbatim>\<open>DaysInYear\<close> days each; the month and the day of the month by
  stepping from January over whole months.
\<close>

definition daysInYear :: "int \<Rightarrow> int" where
  "daysInYear y = (if y mod 4 = 0 \<and> (y mod 100 \<noteq> 0 \<or> y mod 400 = 0) then 366 else 365)"

function yearAndDay :: "int \<Rightarrow> int \<Rightarrow> int \<times> int" where
  "yearAndDay y day =
     (if day < 0 then yearAndDay (y - 1) (day + daysInYear (y - 1))
      else if daysInYear y \<le> day then yearAndDay (y + 1) (day - daysInYear y)
      else (y, day))"
  by pat_completeness auto
termination
  by (relation "measure (\<lambda>(y, day). nat (if day < 0 then 366 - day else day))")
    (auto simp add: daysInYear_def)

declare yearAndDay.simps [simp del]

definition daysInMonth :: "int \<Rightarrow> int \<Rightarrow> int" where
  "daysInMonth y m =
     (if m = 2 then daysInYear y - 337
      else if m = 4 \<or> m = 6 \<or> m = 9 \<or> m = 11 then 30 else 31)"

function monthAndDate :: "int \<Rightarrow> int \<Rightarrow> int \<Rightarrow> int \<times> int" where
  "monthAndDate y m day =
     (if m < 12 \<and> daysInMonth y m \<le> day then monthAndDate y (m + 1) (day - daysInMonth y m)
      else (m, day + 1))"
  by pat_completeness auto
termination
  by (relation "measure (\<lambda>(y, m, day). nat (12 - m))") auto

declare monthAndDate.simps [simp del]

fun civilOfYear :: "int \<times> int \<Rightarrow> int \<times> int \<times> int" where
  "civilOfYear (y, day) = (y, monthAndDate y 1 day)"

definition civilFromDays :: "int \<Rightarrow> int \<times> int \<times> int" where
  "civilFromDays days = civilOfYear (yearAndDay 1970 days)"

text \<open>
  The day local time is in at the instant \<open>t\<close>: \<^verbatim>\<open>Day(LocalTime(t))\<close>, local time being \<open>t\<close>
  plus the offset in force.
\<close>

definition localDay :: "js_env \<Rightarrow> int \<Rightarrow> int" where
  "localDay env t = (t + localTZA env t) div 86400000"

text \<open>\<^verbatim>\<open>getFullYear()\<close>, \<^verbatim>\<open>getMonth()\<close> (from 0) and \<^verbatim>\<open>getDate()\<close>: \<^verbatim>\<open>NaN\<close> on an invalid date.\<close>

definition getFullYear :: "js_env \<Rightarrow> int option \<Rightarrow> jsnum" where
  "getFullYear env date =
     (case date of None \<Rightarrow> NaN | Some t \<Rightarrow> Dec (fst (civilFromDays (localDay env t))) 0)"

definition getMonth :: "js_env \<Rightarrow> int option \<Rightarrow> jsnum" where
  "getMonth env date =
     (case date of None \<Rightarrow> NaN
      | Some t \<Rightarrow> Dec (fst (snd (civilFromDays (localDay env t))) - 1) 0)"

definition getDate :: "js_env \<Rightarrow> int option \<Rightarrow> jsnum" where
  "getDate env date =
     (case date of None \<Rightarrow> NaN | Some t \<Rightarrow> Dec (snd (snd (civilFromDays (localDay env t)))) 0)"

text \<open>Line 218.\<close>

definition formattedDate :: "js_env \<Rightarrow> int option \<Rightarrow> string" where
  "formattedDate env date =
     numberToString (getFullYear env date) @ ''-'' @
     padStart 2 (CHR ''0'') (numberToString (num_add1 (getMonth env date))) @ ''-'' @
     padStart 2 (CHR ''0'') (numberToString (getDate env date))"

subsection \<open>Rows and file\<close>

text \<open>
  \<^verbatim>\<open>const [timestamp, open, high, low, close, volume] = item\<close>: an array gives its first six
  elements and a string its first six characters, \<^verbatim>\<open>undefined\<close> where it is shorter; no
  other value of the model is iterable, and destructuring it throws a \<^verbatim>\<open>TypeError\<close> (whose
  message depends on the engine).
\<close>

definition typeError :: js_error where
  "typeError = Error ''TypeError'' ''item is not iterable''"

definition element :: "jsval list \<Rightarrow> nat \<Rightarrow> jsval" where
  "element xs i = (if i < length xs then xs ! i else JUndefined)"

fun destructure ::
  "jsval \<Rightarrow> js_error + (jsval \<times> jsval \<times> jsval \<times> jsval \<times> jsval \<times> jsval)" where
  "destructure (JArray xs) =
     Inr (element xs 0, element xs 1, element xs 2, element xs 3, element xs 4, element xs 5)"
| "destructure (JString s) =
     (let xs = map (\<lambda>c. JString [c]) s
      in Inr (element xs 0, element xs 1, element xs 2, element xs 3, element xs 4, element xs 5))"
| "destructure v = Inl typeError"

text \<open>Lines 214 to 220: the loop over \<open>data\<close>, appending one line to \<open>csvContent\<close> per item.\<close>

fun csvRows :: "js_env \<Rightarrow> jsval list \<Rightarrow> string \<Rightarrow> js_error + string" where
  "csvRows env [] csvContent = Inr csvContent"
| \<open>csvRows env (item # data) csvContent =
     (case destructure item of
        Inl e \<Rightarrow> Inl e
      | Inr (timestamp, opn, high, low, cls, volume) \<Rightarrow>
          csvRows env data
            (csvContent @ ''"'' @ formattedDate env (newDate env timestamp) @ ''",'' @
             toStringJs opn @ '','' @ toStringJs high @ '','' @ toStringJs low @ '','' @
             toStringJs cls @ '','' @ toStringJs volume @ ''\<newline>''))\<close>

definition csvHeader :: string where
  "csvHeader = ''timestamp,open,high,low,close,volume\<newline>''"

text \<open>Lines 196 to 200: the path of the file when the caller gives none (or an empty one).\<close>

definition defaultPath :: "string \<Rightarrow> string \<Rightarrow> string" where
  "defaultPath exchangeId symbol =
     (let cleanSymbol = js_replace (js_replace symbol ''/'' ''-'') [CHR 0x5C] ''-''
      in ''./data/'' @ exchangeId @ ''_'' @ cleanSymbol @ ''_daily.csv'')"

definition pathOf :: "string option \<Rightarrow> string \<Rightarrow> string \<Rightarrow> string" where
  "pathOf filePath exchangeId symbol =
     (case filePath of
        None \<Rightarrow> defaultPath exchangeId symbol
      | Some p \<Rightarrow> if p = [] then defaultPath exchangeId symbol else p)"

text \<open>
  The file system is the other external collaborator: a state \<open>'f\<close> and the calls of
  \<^verbatim>\<open>path\<close> and \<^verbatim>\<open>fs\<close> the writer makes, each of the effectful ones returning the error it
  throws, if any, and the next state.
\<close>

record 'f fs_api =
  dirname :: "string \<Rightarrow> string"
  existsSync :: "'f \<Rightarrow> string \<Rightarrow> bool"
  mkdirSync :: "'f \<Rightarrow> string \<Rightarrow> js_error option \<times> 'f"
  writeFileSync :: "'f \<Rightarrow> string \<Rightarrow> string \<Rightarrow> js_error option \<times> 'f"

text \<open>Lines 205 to 208.\<close>

definition ensureDirectory :: "'f fs_api \<Rightarrow> string \<Rightarrow> 'f \<Rightarrow> js_error option \<times> 'f" where
  "ensureDirectory fs dir f = (if \<not> existsSync fs f dir then mkdirSync fs f dir else (None, f))"

text \<open>
  \<^verbatim>\<open>writeDataToCSV(data, exchangeId, symbol, filePath?)\<close>, lines 193 to 232: the error it
  rejects with, if any, and the file system it leaves. The \<^verbatim>\<open>catch\<close> block logs and throws
  the error it caught.
\<close>

definition writeDataToCSV ::
  "'f fs_api \<Rightarrow> js_env \<Rightarrow> 'f \<Rightarrow> jsval list \<Rightarrow> string \<Rightarrow> string \<Rightarrow> string option \<Rightarrow> js_error option \<times> 'f" where
  "writeDataToCSV fs env f data exchangeId symbol filePath =
     (let path = pathOf filePath exchangeId symbol in
      case ensureDirectory fs (dirname fs path) f of
        (Some e, f1) \<Rightarrow> (Some e, f1)
      | (None, f1) \<Rightarrow>
          (case csvRows env data csvHeader of
             Inl e \<Rightarrow> (Some e, f1)
           | Inr csvContent \<Rightarrow> writeFileSync fs f1 path csvContent))"

section \<open>What the specification says, in the model's terms\<close>

text \<open>
  The resolver as the specification words it: the symbol itself if the catalog has it,
  otherwise the variant with \<^verbatim>\<open>/\<close> replaced by \<^verbatim>\<open>-\<close>, otherwise the one with \<^verbatim>\<open>/\<close> replaced
  by \<^verbatim>\<open>_\<close>, otherwise not found.
\<close>

definition resolveBySpec :: "(string \<rightharpoonup> 'm) \<Rightarrow> string \<Rightarrow> string option" where
  "resolveBySpec markets symbol =
     (if markets symbol \<noteq> None then Some symbol
      else if markets (js_replace symbol ''/'' ''-'') \<noteq> None
        then Some (js_replace symbol ''/'' ''-'')
      else if markets (js_replace symbol ''/'' ''_'') \<noteq> None
        then Some (js_replace symbol ''/'' ''_'')
      else None)"

text \<open>The timestamp of a candle: its first element, \<^verbatim>\<open>NaN\<close> where there is no such number.\<close>

definition timestampOf :: "jsval \<Rightarrow> jsnum" where
  "timestampOf item = (case arrayFirst item of JNumber t \<Rightarrow> t | _ \<Rightarrow> NaN)"

text \<open>
  An adapter that returns, in every page, candles in ascending order of timestamp, none
  earlier than the \<open>since\<close> it was asked for. The order \<open>before\<close> is \<open>num_le\<close> where equal
  timestamps may follow each other and \<open>num_less\<close> where they may not.
\<close>

definition ascendingAdapter :: "(jsnum \<Rightarrow> jsnum \<Rightarrow> bool) \<Rightarrow> ('s, 'm) adapter \<Rightarrow> bool" where
  "ascendingAdapter before ex =
     (\<forall>s symbol timeframe since limit page s'.
        fetchOHLCV ex s symbol timeframe since limit = (Inr page, s') \<longrightarrow>
          sorted_wrt before (map timestampOf page) \<and>
          (\<forall>item \<in> set page. num_le since (timestampOf item)))"

text \<open>
  The invariant that goes with it: the data accumulated so far is in ascending order of
  timestamp, and all of it is before the cursor whenever the cursor is a valid date.
\<close>

definition ascendingSoFar :: "(jsnum \<Rightarrow> jsnum \<Rightarrow> bool) \<Rightarrow> 's loop_state \<Rightarrow> bool" where
  "ascendingSoFar before st =
     (sorted_wrt before (map timestampOf (allData st)) \<and>
      (\<not> toISOStringThrows (currentSince st) \<longrightarrow>
         (\<forall>item \<in> set (allData st). before (timestampOf item) (currentSince st))))"

text \<open>
  What the argument needs of the order: it is transitive, it goes on through \<open>num_le\<close>, and
  it puts a timestamp before its successor when that is a valid date.
\<close>

definition timeOrder :: "(jsnum \<Rightarrow> jsnum \<Rightarrow> bool) \<Rightarrow> bool" where
  "timeOrder before =
     ((\<forall>a b c. before a b \<longrightarrow> before b c \<longrightarrow> before a c) \<and>
      (\<forall>a b c. before a b \<longrightarrow> num_le b c \<longrightarrow> before a c) \<and>
      (\<forall>t. \<not> toISOStringThrows (num_add1 t) \<longrightarrow> before t (num_add1 t)))"

text \<open>The state a turn of the loop ends in, however it ends.\<close>

fun stateAfter :: "'s loop_step \<Rightarrow> 's loop_state" where
  "stateAfter (Continue st) = st"
| "stateAfter (Break st) = st"
| "stateAfter (Throw e st) = st"

text \<open>
  A last entry without a valid numeric timestamp: missing, not an array, empty, or with a
  first element that is not a number.
\<close>

fun isNumber :: "jsval \<Rightarrow> bool" where
  "isNumber (JNumber n) = True"
| "isNumber v = False"

definition lacksNumericTimestamp :: "jsval \<Rightarrow> bool" where
  "lacksNumericTimestamp lastEntry =
     (lastEntry = JUndefined \<or> lastEntry = JNull \<or> \<not> isArray lastEntry \<or>
      lastEntry = JArray [] \<or> \<not> isNumber (arrayFirst lastEntry))"

text \<open>A candle of six numbers as the array the adapter delivers.\<close>

fun candle :: "jsnum \<times> jsnum \<times> jsnum \<times> jsnum \<times> jsnum \<times> jsnum \<Rightarrow> jsval" where
  "candle (t, opn, high, low, cls, volume) =
     JArray [JNumber t, JNumber opn, JNumber high, JNumber low, JNumber cls, JNumber volume]"

subsection \<open>Reading a line back\<close>

text \<open>
  What a reader of the file makes of a field. A run of decimal digits is read from the
  left, each digit adding to ten times what came before.
\<close>

definition digitValue :: "char \<Rightarrow> nat option" where
  "digitValue c =
     map_of [(CHR ''0'', 0), (CHR ''1'', 1), (CHR ''2'', 2), (CHR ''3'', 3), (CHR ''4'', 4),
             (CHR ''5'', 5), (CHR ''6'', 6), (CHR ''7'', 7), (CHR ''8'', 8), (CHR ''9'', 9)] c"

fun readDigitsFrom :: "nat \<Rightarrow> string \<Rightarrow> nat option" where
  "readDigitsFrom acc [] = Some acc"
| "readDigitsFrom acc (c # cs) =
     (case digitValue c of None \<Rightarrow> None | Some d \<Rightarrow> readDigitsFrom (10 * acc + d) cs)"

definition readDigits :: "string \<Rightarrow> nat option" where
  "readDigits s = (if s = [] then None else readDigitsFrom 0 s)"

text \<open>
  A number in decimal notation: an optional minus sign, digits, optionally a point and
  more digits, optionally \<^verbatim>\<open>e\<close>, a sign and the digits of an exponent. It reads as a pair
  \<open>(M, X)\<close> that stands for \<open>M\<close> times ten to the power \<open>X\<close>: \<open>M\<close> is the number the digits
  before and after the point make together, and \<open>X\<close> the exponent less the number of
  digits after the point.
\<close>

definition readFraction :: "string \<Rightarrow> string option" where
  "readFraction s =
     (if s = [] then Some []
      else if take 1 s = ''.'' \<and> drop 1 s \<noteq> [] then Some (drop 1 s)
      else None)"

definition readExponent :: "string \<Rightarrow> int option" where
  "readExponent s =
     (if s = [] then Some 0
      else if take 2 s = ''e+'' then map_option int (readDigits (drop 2 s))
      else if take 2 s = ''e-'' then map_option (\<lambda>n. - int n) (readDigits (drop 2 s))
      else None)"

definition mantissaOf :: "string \<Rightarrow> string" where
  "mantissaOf s = takeWhile (\<lambda>c. c \<noteq> CHR ''e'') s"

definition exponentOf :: "string \<Rightarrow> string" where
  "exponentOf s = dropWhile (\<lambda>c. c \<noteq> CHR ''e'') s"

definition wholeOf :: "string \<Rightarrow> string" where
  "wholeOf s = takeWhile (\<lambda>c. c \<noteq> CHR ''.'') s"

definition fractionOf :: "string \<Rightarrow> string" where
  "fractionOf s = dropWhile (\<lambda>c. c \<noteq> CHR ''.'') s"

definition readUnsigned :: "string \<Rightarrow> (int \<times> int) option" where
  "readUnsigned s =
     (case (readDigits (wholeOf (mantissaOf s)), readFraction (fractionOf (mantissaOf s)),
            readExponent (exponentOf s)) of
        (Some w, Some f, Some x) \<Rightarrow>
          map_option (\<lambda>M. (int M, x - int (length f))) (readDigitsFrom w f)
      | _ \<Rightarrow> None)"

definition readNumber :: "string \<Rightarrow> (int \<times> int) option" where
  "readNumber s =
     (if take 1 s = ''-'' then map_option (\<lambda>(M, X). (- M, X)) (readUnsigned (drop 1 s))
      else readUnsigned s)"

text \<open>
  A field holds the raw value of a number when it reads as that number: \<open>M\<close> times ten
  to the \<open>X\<close> is \<open>m / 10 ^ e\<close>.
\<close>

definition readsAs :: "string \<Rightarrow> jsnum \<Rightarrow> bool" where
  "readsAs s x =
     (case (readNumber s, x) of
        (Some (M, X), Dec m e) \<Rightarrow> M * 10 ^ nat (X + int e) = m * 10 ^ nat (- (X + int e))
      | _ \<Rightarrow> False)"

subsection \<open>The calendar date of a day\<close>

text \<open>
  The Gregorian calendar, said without stepping through it. \<open>dayFromYear y\<close> is the day
  number of the 1st of January of the year \<open>y\<close> (\<^verbatim>\<open>DayFromYear\<close> of ECMAScript), counted from
  1970-01-01. A month begins on the day of the year the table gives, one day later from
  March on in a year of 366 days; the thirteenth entry is the end of the year.
\<close>

definition dayFromYear :: "int \<Rightarrow> int" where
  "dayFromYear y =
     365 * (y - 1970) + (y - 1969) div 4 - (y - 1901) div 100 + (y - 1601) div 400"

definition monthStart :: "int \<Rightarrow> int \<Rightarrow> int" where
  "monthStart y m =
     [0, 31, 59, 90, 120, 151, 181, 212, 243, 273, 304, 334, 365] ! nat (m - 1) +
     (if 2 < m \<and> dayFromYear (y + 1) - dayFromYear y = 366 then 1 else 0)"

text \<open>
  The day numbered \<open>day\<close> is the \<open>d\<close>-th of the month \<open>m\<close> of the year \<open>y\<close>: the month is one
  of the twelve, the day is within the month, and it is the \<open>d\<close>-th day from the month's
  first.
\<close>

definition civilDate :: "int \<Rightarrow> int \<Rightarrow> int \<Rightarrow> int \<Rightarrow> bool" where
  "civilDate day y m d =
     (1 \<le> m \<and> m \<le> 12 \<and> 1 \<le> d \<and> monthStart y m + d \<le> monthStart y (m + 1) \<and>
      dayFromYear y + monthStart y m + d - 1 = day)"

text \<open>
  A text is the date of a day in the form YYYY-MM-DD: ten characters, four digits, a
  hyphen, two digits, a hyphen and two digits, that read as the year, the month and the
  day of the month of that day.
\<close>

definition dateText :: "int \<Rightarrow> string \<Rightarrow> bool" where
  "dateText day s =
     (length s = 10 \<and> s ! 4 = CHR ''-'' \<and> s ! 7 = CHR ''-'' \<and>
      (case (readDigits (take 4 s), readDigits (take 2 (drop 5 s)), readDigits (drop 8 s)) of
         (Some y, Some m, Some d) \<Rightarrow> civilDate day (int y) (int m) (int d)
       | _ \<Rightarrow> False))"

section \<open>Simulated collaborators\<close>

text \<open>
  A simulated adapter: its state is the list of the responses it still has to give, one
  per \<^verbatim>\<open>fetchOHLCV\<close> call, and an empty page once they are used up.
\<close>

definition simulatedAdapter ::
  "js_error + (string \<rightharpoonup> unit) \<Rightarrow> ((js_error + jsval list) list, unit) adapter" where
  "simulatedAdapter markets =
     \<lparr>loadMarkets = (\<lambda>s. (markets, s)),
      fetchOHLCV = (\<lambda>s symbol timeframe since limit.
        case s of [] \<Rightarrow> (Inr [], []) | r # rs \<Rightarrow> (r, rs))\<rparr>"

definition ethCatalog :: "string \<rightharpoonup> unit" where
  "ethCatalog = [''ETH/USDT'' \<mapsto> ()]"

definition tick :: "int \<Rightarrow> jsval" where
  "tick t = candle (Dec t 0, Dec 1005 1, Dec 110 0, Dec 95 0, Dec 10525 2, Dec 1234 1)"

text \<open>
  A simulated exchange holding three candles, at the timestamps 1, 2 and 3: it answers
  with those not earlier than \<open>since\<close>, two at most.
\<close>

definition orderedAdapter :: "(unit, unit) adapter" where
  "orderedAdapter =
     \<lparr>loadMarkets = (\<lambda>s. (Inr ethCatalog, s)),
      fetchOHLCV = (\<lambda>s symbol timeframe since limit.
        (Inr (take 2 (filter (\<lambda>item. num_le since (timestampOf item)) [tick 1, tick 2, tick 3])), s))\<rparr>"

definition utcEnv :: js_env where
  "utcEnv = \<lparr>localTZA = (\<lambda>t. 0), dateParse = (\<lambda>s. NaN)\<rparr>"

text \<open>A runtime nine hours ahead of UTC all year, as in Tokyo.\<close>

definition tokyoEnv :: js_env where
  "tokyoEnv = \<lparr>localTZA = (\<lambda>t. 32400000), dateParse = (\<lambda>s. NaN)\<rparr>"

text \<open>
  A simulated file system: its state is the content of each file written, every
  directory exists, and no call fails.
\<close>

definition memoryFs :: "(string \<rightharpoonup> string) fs_api" where
  "memoryFs =
     \<lparr>dirname = (\<lambda>p. ''./data''),
      existsSync = (\<lambda>f dir. True),
      mkdirSync = (\<lambda>f dir. (None, f)),
      writeFileSync = (\<lambda>f p content. (None, f(p \<mapsto> content)))\<rparr>"

section \<open>The loop, turn by turn\<close>

lemma fetchLoop_Continue:
  "loopBody ex symbol limit st = Continue st' \<Longrightarrow>
   fetchLoop ex symbol limit st = fetchLoop ex symbol limit st'"
  by (subst fetchLoop.simps) simp

lemma fetchLoop_Break:
  "loopBody ex symbol limit st = Break st' \<Longrightarrow> fetchLoop ex symbol limit st = Some (Inr st')"
  by (subst fetchLoop.simps) simp

lemma fetchLoop_Throw:
  "loopBody ex symbol limit st = Throw e st' \<Longrightarrow>
   fetchLoop ex symbol limit st = Some (Inl (e, st'))"
  by (subst fetchLoop.simps) simp

lemma turns_fetchLoop:
  "turns ex symbol limit n st = Some st' \<Longrightarrow>
   fetchLoop ex symbol limit st = fetchLoop ex symbol limit st'"
proof (induction n arbitrary: st)
  case 0
  then show ?case by simp
next
  case (Suc n)
  then show ?case
    by (subst fetchLoop.simps) (auto split: loop_step.splits)
qed

text \<open>A loop that returns has left through a \<^verbatim>\<open>break\<close> or a throw after finitely many turns.\<close>

lemma fetchLoop_turns:
  assumes "fetchLoop ex symbol limit st = Some r"
  shows "\<exists>n st'. turns ex symbol limit n st = Some st' \<and>
     (case r of
        Inr stf \<Rightarrow> loopBody ex symbol limit st' = Break stf
      | Inl (e, stf) \<Rightarrow> loopBody ex symbol limit st' = Throw e stf)"
  using assms
proof (induction rule: fetchLoop.raw_induct[rotated 1, consumes 1, case_names turn])
  case (turn loop ex symbol limit st r)
  show ?case
  proof (cases "loopBody ex symbol limit st")
    case (Continue st2)
    with turn(2) have "loop ex symbol limit st2 = Some r" by simp
    from turn(1)[OF this] obtain n st' where
      later: "turns ex symbol limit n st2 = Some st'"
        "(case r of
            Inr stf \<Rightarrow> loopBody ex symbol limit st' = Break stf
          | Inl (e, stf) \<Rightarrow> loopBody ex symbol limit st' = Throw e stf)"
      by blast
    from later(1) Continue have "turns ex symbol limit (Suc n) st = Some st'" by simp
    with later(2) show ?thesis by blast
  next
    case (Break st2)
    with turn(2) have "r = Inr st2" by simp
    moreover have "turns ex symbol limit 0 st = Some st" by simp
    ultimately show ?thesis using Break by (intro exI[of _ 0] exI[of _ st]) simp
  next
    case (Throw e st2)
    with turn(2) have "r = Inl (e, st2)" by simp
    moreover have "turns ex symbol limit 0 st = Some st" by simp
    ultimately show ?thesis using Throw by (intro exI[of _ 0] exI[of _ st]) simp
  qed
qed

text \<open>The ways a turn can end, read off \<open>loopBody\<close>.\<close>

lemma loopBody_Continue_cases:
  assumes "loopBody ex symbol limit st = Continue st'"
  shows "\<exists>page t rest s'.
     \<not> toISOStringThrows (currentSince st) \<and>
     fetchOHLCV ex (adapterState st) symbol ''1d'' (currentSince st) limit = (Inr page, s') \<and>
     page \<noteq> [] \<and> last page = JArray (JNumber t # rest) \<and>
     \<not> num_less (Dec (int (length page)) 0) limit \<and>
     st' = st\<lparr>totalRequests := totalRequests st + 1, adapterState := s',
              calls := calls st @ [(symbol, ''1d'', currentSince st, limit)],
              allData := allData st @ page, currentSince := num_add1 t\<rparr>"
proof -
  from assms have valid: "\<not> toISOStringThrows (currentSince st)"
    by (auto simp: loopBody_def Let_def split: if_splits)
  obtain r s' where resp:
    "fetchOHLCV ex (adapterState st) symbol ''1d'' (currentSince st) limit = (r, s')"
    by (cases "fetchOHLCV ex (adapterState st) symbol ''1d'' (currentSince st) limit")
  from assms valid resp obtain page where page: "r = Inr page"
    by (cases r) (auto simp: loopBody_def Let_def)
  from assms valid resp page have ne: "page \<noteq> []"
    by (auto simp: loopBody_def Let_def split: if_splits)
  from assms valid resp page ne obtain xs where arr: "last page = JArray xs"
    by (cases "last page") (auto simp: loopBody_def Let_def last_conv_nth split: if_splits)
  from assms valid resp page ne arr obtain x rest where cons: "xs = x # rest"
    by (cases xs) (auto simp: loopBody_def Let_def last_conv_nth split: if_splits)
  from assms valid resp page ne arr cons obtain t where num: "x = JNumber t"
    by (cases x) (auto simp: loopBody_def Let_def last_conv_nth split: if_splits)
  from assms valid resp page ne arr cons num
  have "\<not> num_less (Dec (int (length page)) 0) limit \<and>
     st' = st\<lparr>totalRequests := totalRequests st + 1, adapterState := s',
              calls := calls st @ [(symbol, ''1d'', currentSince st, limit)],
              allData := allData st @ page, currentSince := num_add1 t\<rparr>"
    by (auto simp: loopBody_def Let_def last_conv_nth split: if_splits)
  with valid resp page ne arr cons num show ?thesis by blast
qed

lemma loopBody_Break_cases:
  assumes "loopBody ex symbol limit st = Break st'"
  shows "\<exists>page s'.
     \<not> toISOStringThrows (currentSince st) \<and>
     fetchOHLCV ex (adapterState st) symbol ''1d'' (currentSince st) limit = (Inr page, s') \<and>
     allData st' = allData st @ page \<and> adapterState st' = s' \<and>
     calls st' = calls st @ [(symbol, ''1d'', currentSince st, limit)]"
proof -
  from assms have valid: "\<not> toISOStringThrows (currentSince st)"
    by (auto simp: loopBody_def Let_def split: if_splits)
  obtain r s' where resp:
    "fetchOHLCV ex (adapterState st) symbol ''1d'' (currentSince st) limit = (r, s')"
    by (cases "fetchOHLCV ex (adapterState st) symbol ''1d'' (currentSince st) limit")
  from assms valid resp obtain page where page: "r = Inr page"
    by (cases r) (auto simp: loopBody_def Let_def)
  from assms valid resp page
  have "allData st' = allData st @ page \<and> adapterState st' = s' \<and>
     calls st' = calls st @ [(symbol, ''1d'', currentSince st, limit)]"
    by (auto simp: loopBody_def Let_def split: if_splits jsval.splits)
  with valid resp page show ?thesis by blast
qed

lemma loopBody_Throw_cases:
  assumes "loopBody ex symbol limit st = Throw e st'"
  shows "(toISOStringThrows (currentSince st) \<and> e = rangeError \<and> calls st' = calls st \<and>
          adapterState st' = adapterState st) \<or>
     (\<not> toISOStringThrows (currentSince st) \<and>
      fetchOHLCV ex (adapterState st) symbol ''1d'' (currentSince st) limit =
        (Inl e, adapterState st') \<and>
      calls st' = calls st @ [(symbol, ''1d'', currentSince st, limit)])"
proof (cases "toISOStringThrows (currentSince st)")
  case True
  with assms show ?thesis by (auto simp: loopBody_def Let_def)
next
  case False
  obtain r s' where resp:
    "fetchOHLCV ex (adapterState st) symbol ''1d'' (currentSince st) limit = (r, s')"
    by (cases "fetchOHLCV ex (adapterState st) symbol ''1d'' (currentSince st) limit")
  from assms False resp obtain e' where err: "r = Inl e'"
    by (cases r) (auto simp: loopBody_def Let_def split: if_splits jsval.splits)
  from assms False resp err show ?thesis
    by (auto simp: loopBody_def Let_def)
qed

lemma loopBody_calls:
  "calls (stateAfter (loopBody ex symbol limit st)) = calls st \<or>
   calls (stateAfter (loopBody ex symbol limit st)) =
     calls st @ [(symbol, ''1d'', currentSince st, limit)]"
proof (cases "loopBody ex symbol limit st")
  case (Continue st')
  from loopBody_Continue_cases[OF this] Continue show ?thesis by auto
next
  case (Break st')
  from loopBody_Break_cases[OF this] Break show ?thesis by auto
next
  case (Throw e st')
  from loopBody_Throw_cases[OF this] Throw show ?thesis by auto
qed

lemma loopBody_invalid_last:
  assumes "\<not> toISOStringThrows (currentSince st)"
    and "fetchOHLCV ex (adapterState st) symbol ''1d'' (currentSince st) limit = (Inr page, s')"
    and "page \<noteq> []"
    and "lacksNumericTimestamp (last page)"
  shows "loopBody ex symbol limit st =
     Break (st\<lparr>totalRequests := totalRequests st + 1, adapterState := s',
               calls := calls st @ [(symbol, ''1d'', currentSince st, limit)],
               allData := allData st @ page\<rparr>)"
proof (cases "last page")
  case (JArray xs)
  show ?thesis
  proof (cases xs)
    case Nil
    with JArray assms show ?thesis by (simp add: loopBody_def Let_def last_conv_nth)
  next
    case (Cons x rest)
    with JArray assms(4) have "\<not> isNumber x" by (simp add: lacksNumericTimestamp_def)
    with Cons JArray assms(1-3) show ?thesis
      by (cases x) (simp_all add: loopBody_def Let_def last_conv_nth)
  qed
qed (use assms in \<open>simp_all add: loopBody_def Let_def last_conv_nth\<close>)

section \<open>Pagination\<close>

text \<open>
  C1. When the catalog has the symbol, the start is a valid date and the adapter, asked with
  the page-size limit 100, answers three requests in a row with pages of 100, 100 and 37
  entries (the first two ending in a candle whose timestamp is a number, one millisecond
  before a valid date), \<open>fetchSymbolData\<close> issues exactly those three requests, returns the
  237 entries in the order received, and stops after the third page, which is shorter than
  the limit.
\<close>

theorem three_pages_237:
  assumes "loadMarkets ex s0 = (Inr markets, s1)"
    and "resolveSymbol markets symbol = Some symbol'"
    and "\<not> toISOStringThrows (startDateOf since)"
    and "limitOf limitArg = Dec 100 0"
    and "fetchOHLCV ex s1 symbol' ''1d'' (startDateOf since) (Dec 100 0) = (Inr page1, s2)"
    and "length page1 = 100" and "last page1 = JArray (JNumber t1 # rest1)"
    and "\<not> toISOStringThrows (num_add1 t1)"
    and "fetchOHLCV ex s2 symbol' ''1d'' (num_add1 t1) (Dec 100 0) = (Inr page2, s3)"
    and "length page2 = 100" and "last page2 = JArray (JNumber t2 # rest2)"
    and "\<not> toISOStringThrows (num_add1 t2)"
    and "fetchOHLCV ex s3 symbol' ''1d'' (num_add1 t2) (Dec 100 0) = (Inr page3, s4)"
    and "length page3 = 37"
  shows "fetchSymbolData ex s0 symbol since limitArg =
      Some \<lparr>returned = Inr (page1 @ page2 @ page3),
            requests = [(symbol', ''1d'', startDateOf since, Dec 100 0),
                        (symbol', ''1d'', num_add1 t1, Dec 100 0),
                        (symbol', ''1d'', num_add1 t2, Dec 100 0)],
            adapterAfter = s4\<rparr>
    \<and> length (page1 @ page2 @ page3) = 237
    \<and> num_less (Dec (int (length page3)) 0) (Dec 100 0)"
proof -
  let ?lim = "Dec 100 0"
  let ?c1 = "(symbol', ''1d'', startDateOf since, ?lim)"
  let ?c2 = "(symbol', ''1d'', num_add1 t1, ?lim)"
  let ?c3 = "(symbol', ''1d'', num_add1 t2, ?lim)"
  let ?st0 = "initialState (startDateOf since) s1"
  let ?st1 = "\<lparr>allData = page1, currentSince = num_add1 t1, totalRequests = 1,
      adapterState = s2, calls = [?c1]\<rparr>"
  let ?st2 = "\<lparr>allData = page1 @ page2, currentSince = num_add1 t2, totalRequests = 2,
      adapterState = s3, calls = [?c1, ?c2]\<rparr>"
  have ne: "page1 \<noteq> []" "page2 \<noteq> []" "page3 \<noteq> []"
    using assms(6,10,14) by auto
  have turn1: "loopBody ex symbol' ?lim ?st0 = Continue ?st1"
    using assms(3,5,6,7) ne
    by (simp add: loopBody_def initialState_def Let_def last_conv_nth)
  have turn2: "loopBody ex symbol' ?lim ?st1 = Continue ?st2"
    using assms(8,9,10,11) ne by (simp add: loopBody_def Let_def last_conv_nth)
  have "\<exists>st3. loopBody ex symbol' ?lim ?st2 = Break st3 \<and>
      allData st3 = page1 @ page2 @ page3 \<and> calls st3 = [?c1, ?c2, ?c3] \<and>
      adapterState st3 = s4"
  proof (cases "loopBody ex symbol' ?lim ?st2")
    case (Continue st')
    from loopBody_Continue_cases[OF this] assms(13,14) show ?thesis by auto
  next
    case (Break st')
    from loopBody_Break_cases[OF this] assms(13) Break show ?thesis by auto
  next
    case (Throw e st')
    from loopBody_Throw_cases[OF this] assms(12,13) show ?thesis by auto
  qed
  then obtain st3 where turn3: "loopBody ex symbol' ?lim ?st2 = Break st3"
    and data3: "allData st3 = page1 @ page2 @ page3"
    and calls3: "calls st3 = [?c1, ?c2, ?c3]" and after3: "adapterState st3 = s4"
    by blast
  have "turns ex symbol' ?lim 2 ?st0 = Some ?st2"
    using turn1 turn2 by (simp add: numeral_2_eq_2)
  then have "fetchLoop ex symbol' ?lim ?st0 = fetchLoop ex symbol' ?lim ?st2"
    by (rule turns_fetchLoop)
  also have "\<dots> = Some (Inr st3)"
    using turn3 by (rule fetchLoop_Break)
  finally show ?thesis
    using assms(1-4) assms(6,10,14) data3 calls3 after3
    by (simp add: fetchSymbolData_def Let_def loopOutcome_def)
qed

theorem three_pages_237_witness:
  "fetchSymbolData (simulatedAdapter (Inr ethCatalog))
      [Inr (map tick [1..100]), Inr (map tick [101..200]), Inr (map tick [201..237])]
      ''ETH/USDT'' None None =
    Some \<lparr>returned = Inr (map tick [1..100] @ map tick [101..200] @ map tick [201..237]),
          requests = [(''ETH/USDT'', ''1d'', Dec 1577836800000 0, Dec 100 0),
                      (''ETH/USDT'', ''1d'', Dec 101 0, Dec 100 0),
                      (''ETH/USDT'', ''1d'', Dec 201 0, Dec 100 0)],
          adapterAfter = []\<rparr>
    \<and> length (map tick [1..100] @ map tick [101..200] @ map tick [201..237]) = 237"
proof -
  let ?ex = "simulatedAdapter (Inr ethCatalog)"
  let ?p1 = "map tick [1..100]" and ?p2 = "map tick [101..200]" and ?p3 = "map tick [201..237]"
  have start: "startDateOf None = Dec 1577836800000 0"
    by (simp add: startDateOf_def defaultStart_def)
  have l1: "last ?p1 = JArray (JNumber (Dec 100 0) #
      [JNumber (Dec 1005 1), JNumber (Dec 110 0), JNumber (Dec 95 0), JNumber (Dec 10525 2),
       JNumber (Dec 1234 1)])"
    by (subst upto_rec2) (simp_all add: tick_def)
  have l2: "last ?p2 = JArray (JNumber (Dec 200 0) #
      [JNumber (Dec 1005 1), JNumber (Dec 110 0), JNumber (Dec 95 0), JNumber (Dec 10525 2),
       JNumber (Dec 1234 1)])"
    by (subst upto_rec2) (simp_all add: tick_def)
  have "fetchSymbolData ?ex [Inr ?p1, Inr ?p2, Inr ?p3] ''ETH/USDT'' None None =
      Some \<lparr>returned = Inr (?p1 @ ?p2 @ ?p3),
            requests = [(''ETH/USDT'', ''1d'', startDateOf None, Dec 100 0),
                        (''ETH/USDT'', ''1d'', num_add1 (Dec 100 0), Dec 100 0),
                        (''ETH/USDT'', ''1d'', num_add1 (Dec 200 0), Dec 100 0)],
            adapterAfter = []\<rparr>
    \<and> length (?p1 @ ?p2 @ ?p3) = 237
    \<and> num_less (Dec (int (length ?p3)) 0) (Dec 100 0)"
  proof (rule three_pages_237[where markets = ethCatalog and ?s1.0 = "[Inr ?p1, Inr ?p2, Inr ?p3]"
        and ?s2.0 = "[Inr ?p2, Inr ?p3]" and ?s3.0 = "[Inr ?p3]", OF _ _ _ _ _ _ l1 _ _ _ l2])
    show "loadMarkets ?ex [Inr ?p1, Inr ?p2, Inr ?p3] = (Inr ethCatalog, [Inr ?p1, Inr ?p2, Inr ?p3])"
      by (simp add: simulatedAdapter_def)
    show "resolveSymbol ethCatalog ''ETH/USDT'' = Some ''ETH/USDT''"
      by (simp add: resolveSymbol_def truthyProperty_def ethCatalog_def)
    show "\<not> toISOStringThrows (startDateOf None)"
      by (simp add: start toISOStringThrows_def)
    show "limitOf None = Dec 100 0" by (simp add: limitOf_def)
    show "fetchOHLCV ?ex [Inr ?p1, Inr ?p2, Inr ?p3] ''ETH/USDT'' ''1d'' (startDateOf None) (Dec 100 0)
        = (Inr ?p1, [Inr ?p2, Inr ?p3])"
      by (simp only: simulatedAdapter_def adapter.simps list.case)
    show "length ?p1 = 100" by simp
    show "\<not> toISOStringThrows (num_add1 (Dec 100 0))" by (simp add: toISOStringThrows_def)
    show "fetchOHLCV ?ex [Inr ?p2, Inr ?p3] ''ETH/USDT'' ''1d'' (num_add1 (Dec 100 0)) (Dec 100 0)
        = (Inr ?p2, [Inr ?p3])"
      by (simp only: simulatedAdapter_def adapter.simps list.case)
    show "length ?p2 = 100" by simp
    show "\<not> toISOStringThrows (num_add1 (Dec 200 0))" by (simp add: toISOStringThrows_def)
    show "fetchOHLCV ?ex [Inr ?p3] ''ETH/USDT'' ''1d'' (num_add1 (Dec 200 0)) (Dec 100 0)
        = (Inr ?p3, [])"
      by (simp only: simulatedAdapter_def adapter.simps list.case)
    show "length ?p3 = 37" by simp
  qed
  then show ?thesis by (simp only: start num_add1.simps) simp
qed

text \<open>
  C3. When the catalog has the symbol, the start is a valid date and the adapter answers
  the first request with an empty page, \<open>fetchSymbolData\<close> issues exactly that one request
  and returns the empty series, with no error.
\<close>

theorem empty_first_page:
  assumes "loadMarkets ex s0 = (Inr markets, s1)"
    and "resolveSymbol markets symbol = Some symbol'"
    and "\<not> toISOStringThrows (startDateOf since)"
    and "fetchOHLCV ex s1 symbol' ''1d'' (startDateOf since) (limitOf limitArg) = (Inr [], s2)"
  shows "fetchSymbolData ex s0 symbol since limitArg =
    Some \<lparr>returned = Inr [],
          requests = [(symbol', ''1d'', startDateOf since, limitOf limitArg)],
          adapterAfter = s2\<rparr>"
proof -
  let ?st0 = "initialState (startDateOf since) s1"
  have "loopBody ex symbol' (limitOf limitArg) ?st0 =
      Break (?st0\<lparr>totalRequests := 1, adapterState := s2,
              calls := [(symbol', ''1d'', startDateOf since, limitOf limitArg)]\<rparr>)"
    using assms(3,4) by (simp add: loopBody_def initialState_def Let_def)
  then have "fetchLoop ex symbol' (limitOf limitArg) ?st0 =
      Some (Inr (?st0\<lparr>totalRequests := 1, adapterState := s2,
              calls := [(symbol', ''1d'', startDateOf since, limitOf limitArg)]\<rparr>))"
    by (rule fetchLoop_Break)
  then show ?thesis
    using assms(1-3) by (simp add: fetchSymbolData_def Let_def loopOutcome_def initialState_def)
qed

theorem empty_first_page_witness:
  "fetchSymbolData (simulatedAdapter (Inr ethCatalog)) [] ''ETH/USDT'' None None =
    Some \<lparr>returned = Inr [],
          requests = [(''ETH/USDT'', ''1d'', Dec 1577836800000 0, Dec 100 0)],
          adapterAfter = []\<rparr>"
  using empty_first_page[of "simulatedAdapter (Inr ethCatalog)" "[]" ethCatalog "[]"
      "''ETH/USDT''" "''ETH/USDT''" None None "[]"]
  by (simp add: simulatedAdapter_def resolveSymbol_def truthyProperty_def ethCatalog_def startDateOf_def
      defaultStart_def toISOStringThrows_def limitOf_def)

section \<open>Symbols\<close>

lemma js_replace_Nil:
  "js_replace symbol [c] [d] = [] \<Longrightarrow> symbol = []"
  by (cases symbol) (auto split: if_splits)

text \<open>Replacing touches the first occurrence only, and leaves a string without one as it is.\<close>

lemma js_replace_first:
  "c \<notin> set base \<Longrightarrow> js_replace (base @ c # quote) [c] rep = base @ rep @ quote"
  by (induction base) auto

lemma js_replace_absent:
  "c \<notin> set symbol \<Longrightarrow> js_replace symbol [c] rep = symbol"
  by (induction symbol) auto

text \<open>
  Where neither the symbol nor its variants are names inherited from \<^verbatim>\<open>Object.prototype\<close>,
  the resolver does what the specification says: the requested symbol as it is when the
  catalog has it; otherwise the first of the variants with \<^verbatim>\<open>/\<close> replaced by \<^verbatim>\<open>-\<close> and with
  \<^verbatim>\<open>/\<close> replaced by \<^verbatim>\<open>_\<close>, in this order, that the catalog has; none when it has neither.
  The variants are those of \<^verbatim>\<open>String.replace\<close>, which replaces the first \<^verbatim>\<open>/\<close> of the symbol.
\<close>

lemma truthyProperty_own:
  "k \<notin> set objectPrototypeNames \<Longrightarrow> truthyProperty markets k = (markets k \<noteq> None)"
  by (simp add: truthyProperty_def)

lemma resolver_agrees_off_prototype:
  assumes "set (symbolVariants symbol) \<inter> set objectPrototypeNames = {}"
  shows "resolveSymbol markets symbol = resolveBySpec markets symbol"
proof -
  from assms have own:
    "truthyProperty markets symbol = (markets symbol \<noteq> None)"
    "truthyProperty markets (js_replace symbol ''/'' ''-'') =
       (markets (js_replace symbol ''/'' ''-'') \<noteq> None)"
    "truthyProperty markets (js_replace symbol ''/'' ''_'') =
       (markets (js_replace symbol ''/'' ''_'') \<noteq> None)"
    by (simp_all add: symbolVariants_def truthyProperty_own)
  show ?thesis
  proof (cases "markets symbol \<noteq> None")
    case True
    then show ?thesis by (simp add: resolveSymbol_def resolveBySpec_def own)
  next
    case absent: False
    have dash: "js_replace symbol ''/'' ''-'' \<noteq> []" if "markets (js_replace symbol ''/'' ''-'') \<noteq> None"
      using that absent js_replace_Nil[of symbol "CHR ''/''" "CHR ''-''"] by auto
    have underscore: "js_replace symbol ''/'' ''_'' \<noteq> []"
      if "markets (js_replace symbol ''/'' ''_'') \<noteq> None"
      using that absent js_replace_Nil[of symbol "CHR ''/''" "CHR ''_''"] by auto
    show ?thesis
      using absent dash underscore
      by (auto simp add: resolveSymbol_def resolveBySpec_def symbolVariants_def own)
  qed
qed

lemma symbolVariants_eth:
  "symbolVariants ''ETH/USDT'' = [''ETH/USDT'', ''ETH-USDT'', ''ETH_USDT'']"
  by (simp add: symbolVariants_def)

lemma resolver_agrees_eth:
  "resolveSymbol [''ETH-USDT'' \<mapsto> ()] ''ETH/USDT'' = Some ''ETH-USDT''
   \<and> resolveSymbol [''ETH_USDT'' \<mapsto> ()] ''ETH/USDT'' = Some ''ETH_USDT''
   \<and> resolveSymbol [''ETH-USDT'' \<mapsto> (), ''ETH_USDT'' \<mapsto> ()] ''ETH/USDT'' = Some ''ETH-USDT''
   \<and> resolveSymbol [''BTC/USDT'' \<mapsto> ()] ''ETH/USDT'' = None"
  by (simp add: resolveSymbol_def symbolVariants_def truthyProperty_def objectPrototypeNames_def)

text \<open>
  C4, at the symbol \<^verbatim>\<open>constructor\<close> and a catalog whose only key is \<^verbatim>\<open>ETH/USDT\<close>. The symbol
  is not a key of the catalog and has no \<^verbatim>\<open>/\<close>, so that by the specification nothing is
  found. The test \<^verbatim>\<open>!markets[symbol]\<close> of line 83 reads the property \<^verbatim>\<open>constructor\<close> that
  every plain object inherits, finds it truthy, and the resolver uses the symbol as it is.
\<close>

theorem resolver_takes_inherited_name:
  "ethCatalog ''constructor'' = None
   \<and> symbolVariants ''constructor'' = [''constructor'', ''constructor'', ''constructor'']
   \<and> resolveBySpec ethCatalog ''constructor'' = None
   \<and> resolveSymbol ethCatalog ''constructor'' = Some ''constructor''"
  by (simp add: ethCatalog_def symbolVariants_def resolveBySpec_def resolveSymbol_def
      truthyProperty_def objectPrototypeNames_def)

text \<open>
  Where neither the symbol nor its variants are names inherited from \<^verbatim>\<open>Object.prototype\<close>
  and the catalog has the symbol under none of its three variants, \<open>fetchSymbolData\<close>
  returns the empty series, raises nothing and issues no \<^verbatim>\<open>fetchOHLCV\<close> request.
\<close>

lemma unsupported_symbol_empty:
  assumes "loadMarkets ex s0 = (Inr markets, s1)"
    and "markets symbol = None"
    and "markets (js_replace symbol ''/'' ''-'') = None"
    and "markets (js_replace symbol ''/'' ''_'') = None"
    and "set (symbolVariants symbol) \<inter> set objectPrototypeNames = {}"
  shows "fetchSymbolData ex s0 symbol since limitArg =
    Some \<lparr>returned = Inr [], requests = [], adapterAfter = s1\<rparr>"
proof -
  have "resolveSymbol markets symbol = None"
    using assms(2-4) by (simp add: resolver_agrees_off_prototype[OF assms(5)] resolveBySpec_def)
  then show ?thesis
    using assms(1) by (simp add: fetchSymbolData_def Let_def)
qed

lemma unsupported_symbol_empty_doge:
  "fetchSymbolData (simulatedAdapter (Inr ethCatalog)) [Inr [tick 1]] ''DOGE/USDT'' None None =
    Some \<lparr>returned = Inr [], requests = [], adapterAfter = [Inr [tick 1]]\<rparr>"
  using unsupported_symbol_empty[of "simulatedAdapter (Inr ethCatalog)" "[Inr [tick 1]]" ethCatalog
      "[Inr [tick 1]]" "''DOGE/USDT''" None None]
  by (simp add: simulatedAdapter_def ethCatalog_def symbolVariants_def objectPrototypeNames_def)

text \<open>
  C5, at the symbol \<^verbatim>\<open>constructor\<close>, a catalog whose only key is \<^verbatim>\<open>ETH/USDT\<close> and an exchange
  that rejects the symbol it does not list. The catalog has the symbol under none of its
  three variants. \<open>fetchSymbolData\<close> takes the inherited property \<^verbatim>\<open>constructor\<close> for a
  market, issues a \<^verbatim>\<open>fetchOHLCV\<close> request for it and raises the exchange's error.
\<close>

theorem unsupported_symbol_fetches:
  "ethCatalog ''constructor'' = None
   \<and> ethCatalog (js_replace ''constructor'' ''/'' ''-'') = None
   \<and> ethCatalog (js_replace ''constructor'' ''/'' ''_'') = None
   \<and> fetchSymbolData (simulatedAdapter (Inr ethCatalog))
       [Inl (Error ''BadSymbol'' ''okx does not have market symbol constructor'')]
       ''constructor'' None None =
     Some \<lparr>returned = Inl (Error ''BadSymbol'' ''okx does not have market symbol constructor''),
           requests = [(''constructor'', ''1d'', Dec 1577836800000 0, Dec 100 0)],
           adapterAfter = []\<rparr>"
proof -
  let ?refused = "Error ''BadSymbol'' ''okx does not have market symbol constructor''"
  let ?ex = "simulatedAdapter (Inr ethCatalog)"
  let ?call = "(''constructor'', ''1d'', Dec 1577836800000 0, Dec 100 0)"
  let ?st1 = "\<lparr>allData = [], currentSince = Dec 1577836800000 0, totalRequests = 1,
      adapterState = [], calls = [?call]\<rparr>"
  have "loopBody ?ex ''constructor'' (Dec 100 0) (initialState (Dec 1577836800000 0) [Inl ?refused]) =
      Throw ?refused ?st1"
    by (simp add: loopBody_def simulatedAdapter_def initialState_def toISOStringThrows_def Let_def)
  then have "fetchLoop ?ex ''constructor'' (Dec 100 0)
      (initialState (Dec 1577836800000 0) [Inl ?refused]) = Some (Inl (?refused, ?st1))"
    by (rule fetchLoop_Throw)
  then have "fetchSymbolData ?ex [Inl ?refused] ''constructor'' None None =
     Some \<lparr>returned = Inl ?refused, requests = [?call], adapterAfter = []\<rparr>"
    by (simp add: fetchSymbolData_def simulatedAdapter_def resolveSymbol_def truthyProperty_def
        objectPrototypeNames_def startDateOf_def defaultStart_def limitOf_def
        toISOStringThrows_def loopOutcome_def)
  then show ?thesis by (simp add: ethCatalog_def)
qed

section \<open>Cursor and order\<close>

lemma num_less_le_trans: "num_less a b \<Longrightarrow> num_le b c \<Longrightarrow> num_less a c"
proof (cases a; cases b; cases c)
  fix m1 e1 m2 e2 m3 e3
  assume abc: "a = Dec m1 e1" "b = Dec m2 e2" "c = Dec m3 e3"
  assume le: "num_less a b" "num_le b c"
  from le abc have ab: "m1 * 10 ^ e2 < m2 * 10 ^ e1" and bc: "m2 * 10 ^ e3 \<le> m3 * 10 ^ e2"
    by simp_all
  have pos: "(0::int) < 10 ^ e1" "(0::int) < 10 ^ e2" "(0::int) < 10 ^ e3" by simp_all
  from ab pos have "m1 * 10 ^ e2 * 10 ^ e3 < m2 * 10 ^ e1 * 10 ^ e3"
    by (simp add: mult_strict_right_mono)
  also have "\<dots> = m2 * 10 ^ e3 * 10 ^ e1" by (simp add: mult.assoc mult.commute)
  also from bc pos have "\<dots> \<le> m3 * 10 ^ e2 * 10 ^ e1" by (simp add: mult_right_mono)
  finally have "(m1 * 10 ^ e3) * 10 ^ e2 < (m3 * 10 ^ e1) * 10 ^ e2"
    by (simp add: mult.assoc mult.commute mult.left_commute)
  with pos have "m1 * 10 ^ e3 < m3 * 10 ^ e1" by (simp only: mult_less_cancel_right)
  with abc show ?thesis by simp
qed simp_all

lemma num_less_imp_le: "num_less a b \<Longrightarrow> num_le a b"
  by (cases a; cases b) simp_all

lemma num_le_trans: "num_le a b \<Longrightarrow> num_le b c \<Longrightarrow> num_le a c"
proof (cases a; cases b; cases c)
  fix m1 e1 m2 e2 m3 e3
  assume abc: "a = Dec m1 e1" "b = Dec m2 e2" "c = Dec m3 e3"
  assume le: "num_le a b" "num_le b c"
  from le abc have ab: "m1 * 10 ^ e2 \<le> m2 * 10 ^ e1" and bc: "m2 * 10 ^ e3 \<le> m3 * 10 ^ e2"
    by simp_all
  have pos: "(0::int) < 10 ^ e1" "(0::int) < 10 ^ e2" "(0::int) < 10 ^ e3" by simp_all
  from ab pos have "m1 * 10 ^ e2 * 10 ^ e3 \<le> m2 * 10 ^ e1 * 10 ^ e3"
    by (simp add: mult_right_mono)
  also have "\<dots> = m2 * 10 ^ e3 * 10 ^ e1" by (simp add: mult.assoc mult.commute)
  also from bc pos have "\<dots> \<le> m3 * 10 ^ e2 * 10 ^ e1" by (simp add: mult_right_mono)
  finally have "(m1 * 10 ^ e3) * 10 ^ e2 \<le> (m3 * 10 ^ e1) * 10 ^ e2"
    by (simp add: mult.assoc mult.commute mult.left_commute)
  with pos have "m1 * 10 ^ e3 \<le> m3 * 10 ^ e1" by (simp only: mult_le_cancel_right)
  with abc show ?thesis by simp
qed simp_all

lemma num_less_trans: "num_less a b \<Longrightarrow> num_less b c \<Longrightarrow> num_less a c"
  by (blast intro: num_less_le_trans num_less_imp_le)

text \<open>A cursor that is a valid date is a finite number, so it is later than the timestamp before it.\<close>

lemma num_less_add1: "\<not> toISOStringThrows (num_add1 t) \<Longrightarrow> num_less t (num_add1 t)"
  by (cases t) (simp_all add: toISOStringThrows_def distrib_right)

lemma num_le_add1: "\<not> toISOStringThrows (num_add1 t) \<Longrightarrow> num_le t (num_add1 t)"
  by (rule num_less_imp_le) (rule num_less_add1)

lemma sorted_wrt_last:
  "sorted_wrt R xs \<Longrightarrow> x \<in> set xs \<Longrightarrow> x = last xs \<or> R x (last xs)"
  by (induction xs) auto

lemma timeOrder_le: "timeOrder num_le"
  unfolding timeOrder_def by (blast intro: num_le_trans num_le_add1)

lemma timeOrder_less: "timeOrder num_less"
  unfolding timeOrder_def by (blast intro: num_less_trans num_less_le_trans num_less_add1)

lemma timeOrder_trans: "timeOrder before \<Longrightarrow> before a b \<Longrightarrow> before b c \<Longrightarrow> before a c"
  unfolding timeOrder_def by blast

lemma timeOrder_through: "timeOrder before \<Longrightarrow> before a b \<Longrightarrow> num_le b c \<Longrightarrow> before a c"
  unfolding timeOrder_def by blast

lemma timeOrder_add1:
  "timeOrder before \<Longrightarrow> \<not> toISOStringThrows (num_add1 t) \<Longrightarrow> before t (num_add1 t)"
  unfolding timeOrder_def by blast

text \<open>
  The invariant is kept by a turn that goes on, and gives the order of the data when the
  loop leaves.
\<close>

lemma ascending_append:
  assumes order: "timeOrder before"
    and adapter: "ascendingAdapter before ex"
    and inv: "ascendingSoFar before st"
    and valid: "\<not> toISOStringThrows (currentSince st)"
    and resp: "fetchOHLCV ex (adapterState st) symbol ''1d'' (currentSince st) limit = (Inr page, s')"
  shows "sorted_wrt before (map timestampOf (allData st @ page))"
    and "\<forall>x \<in> set (allData st). \<forall>y \<in> set page. before (timestampOf x) (timestampOf y)"
proof -
  from adapter resp have sorted_page: "sorted_wrt before (map timestampOf page)"
    and later: "\<forall>item \<in> set page. num_le (currentSince st) (timestampOf item)"
    unfolding ascendingAdapter_def by blast+
  show across: "\<forall>x \<in> set (allData st). \<forall>y \<in> set page. before (timestampOf x) (timestampOf y)"
  proof (intro ballI)
    fix x y
    assume "x \<in> set (allData st)" and "y \<in> set page"
    with inv valid later
    have "before (timestampOf x) (currentSince st)" and "num_le (currentSince st) (timestampOf y)"
      by (simp_all add: ascendingSoFar_def)
    with order show "before (timestampOf x) (timestampOf y)" by (rule timeOrder_through)
  qed
  from inv sorted_page across show "sorted_wrt before (map timestampOf (allData st @ page))"
    by (simp add: ascendingSoFar_def sorted_wrt_append)
qed

lemma ascending_Continue:
  assumes order: "timeOrder before"
    and adapter: "ascendingAdapter before ex"
    and inv: "ascendingSoFar before st"
    and turn: "loopBody ex symbol limit st = Continue st'"
  shows "ascendingSoFar before st'"
proof -
  from loopBody_Continue_cases[OF turn] obtain page t rest s' where
    valid: "\<not> toISOStringThrows (currentSince st)"
    and resp: "fetchOHLCV ex (adapterState st) symbol ''1d'' (currentSince st) limit = (Inr page, s')"
    and ne: "page \<noteq> []" and lst: "last page = JArray (JNumber t # rest)"
    and data: "allData st' = allData st @ page" and cur: "currentSince st' = num_add1 t"
    by auto
  note appended = ascending_append[OF order adapter inv valid resp]
  from adapter resp have sorted_page: "sorted_wrt before (map timestampOf page)"
    unfolding ascendingAdapter_def by blast
  from lst have t: "timestampOf (last page) = t" by (simp add: timestampOf_def)
  have "before (timestampOf x) (num_add1 t)"
    if next_valid: "\<not> toISOStringThrows (num_add1 t)" and x: "x \<in> set (allData st @ page)" for x
  proof -
    from order next_valid have step: "before t (num_add1 t)" by (rule timeOrder_add1)
    have "timestampOf x = t \<or> before (timestampOf x) t"
    proof (cases "x \<in> set page")
      case True
      from sorted_page have "sorted_wrt (\<lambda>x y. before (timestampOf x) (timestampOf y)) page"
        by (simp add: sorted_wrt_map)
      from sorted_wrt_last[OF this True] t show ?thesis by auto
    next
      case False
      with x have "x \<in> set (allData st)" by simp
      moreover from ne have "last page \<in> set page" by simp
      ultimately show ?thesis using appended(2) t by auto
    qed
    then show ?thesis
    proof
      assume "timestampOf x = t"
      with step show ?thesis by simp
    next
      assume "before (timestampOf x) t"
      with order show ?thesis using step by (rule timeOrder_trans)
    qed
  qed
  with appended(1) show ?thesis by (simp add: ascendingSoFar_def data cur)
qed

lemma ascending_Break:
  assumes order: "timeOrder before"
    and adapter: "ascendingAdapter before ex"
    and inv: "ascendingSoFar before st"
    and turn: "loopBody ex symbol limit st = Break st'"
  shows "sorted_wrt before (map timestampOf (allData st'))"
proof -
  from loopBody_Break_cases[OF turn] obtain page s' where
    valid: "\<not> toISOStringThrows (currentSince st)"
    and resp: "fetchOHLCV ex (adapterState st) symbol ''1d'' (currentSince st) limit = (Inr page, s')"
    and data: "allData st' = allData st @ page"
    by auto
  from ascending_append(1)[OF order adapter inv valid resp] data show ?thesis by simp
qed

lemma ascending_turns:
  assumes order: "timeOrder before"
    and adapter: "ascendingAdapter before ex"
  shows "ascendingSoFar before st \<Longrightarrow> turns ex symbol limit n st = Some st' \<Longrightarrow>
    ascendingSoFar before st'"
proof (induction n arbitrary: st)
  case 0
  then show ?case by simp
next
  case (Suc n)
  from Suc.prems(2) obtain st1 where turn: "loopBody ex symbol limit st = Continue st1"
    and rest: "turns ex symbol limit n st1 = Some st'"
    by (auto split: loop_step.splits)
  from ascending_Continue[OF order adapter Suc.prems(1) turn] rest
  show ?case by (rule Suc.IH)
qed

lemma ascending_result:
  assumes order: "timeOrder before"
    and adapter: "ascendingAdapter before ex"
    and result: "fetchSymbolData ex s0 symbol since limitArg = Some out"
    and data: "returned out = Inr data"
  shows "sorted_wrt before (map timestampOf data)"
proof -
  obtain r s1 where lm: "loadMarkets ex s0 = (r, s1)" by (cases "loadMarkets ex s0")
  show ?thesis
  proof (cases r)
    case (Inl e)
    with lm result data show ?thesis by (auto simp: fetchSymbolData_def)
  next
    case (Inr markets)
    show ?thesis
    proof (cases "resolveSymbol markets symbol")
      case None
      with lm Inr result data show ?thesis by (auto simp: fetchSymbolData_def)
    next
      case (Some symbol')
      let ?st0 = "initialState (startDateOf since) s1"
      from lm Inr Some result data
      obtain r' where loop: "fetchLoop ex symbol' (limitOf limitArg) ?st0 = Some r'"
        and out: "out = loopOutcome r'"
        by (auto simp: fetchSymbolData_def Let_def split: if_splits)
      from out data obtain stf where r': "r' = Inr stf" and stf: "data = allData stf"
        by (cases r') (auto simp: loopOutcome_def)
      from fetchLoop_turns[OF loop] r' obtain n st' where
        reach: "turns ex symbol' (limitOf limitArg) n ?st0 = Some st'"
        and final: "loopBody ex symbol' (limitOf limitArg) st' = Break stf"
        by auto
      have "ascendingSoFar before ?st0" by (simp add: ascendingSoFar_def initialState_def)
      from ascending_turns[OF order adapter this reach] have "ascendingSoFar before st'" .
      from ascending_Break[OF order adapter this final] stf show ?thesis by simp
    qed
  qed
qed

text \<open>
  C2. Whenever a turn of the loop goes on to the next, the page it received was not empty,
  its entries were appended to the data, and the cursor is now the timestamp of the page's
  last candle plus one millisecond; every request a turn issues carries the cursor the turn
  started with. If the adapter returns, in every page, candles in ascending order of
  timestamp and none earlier than the \<open>since\<close> requested, the data accumulated after any
  number of turns, and the series \<open>fetchSymbolData\<close> returns, are in non-decreasing order of
  timestamp; and if no page repeats a timestamp, neither does the series.
\<close>

theorem cursor_and_order:
  "(\<forall>st st'. loopBody ex symbol limit st = Continue st' \<longrightarrow>
      (\<exists>page t rest.
         fetchOHLCV ex (adapterState st) symbol ''1d'' (currentSince st) limit =
           (Inr page, adapterState st') \<and>
         page \<noteq> [] \<and> last page = JArray (JNumber t # rest) \<and>
         allData st' = allData st @ page \<and> currentSince st' = num_add1 t))
   \<and> (\<forall>st. calls (stateAfter (loopBody ex symbol limit st)) = calls st \<or>
         calls (stateAfter (loopBody ex symbol limit st)) =
           calls st @ [(symbol, ''1d'', currentSince st, limit)])
   \<and> (\<forall>before. (before = num_le \<or> before = num_less) \<and> ascendingAdapter before ex \<longrightarrow>
        (\<forall>n st. turns ex symbol limit n (initialState startDate s1) = Some st \<longrightarrow>
           sorted_wrt before (map timestampOf (allData st)))
      \<and> (\<forall>s0 requested since limitArg out data.
           fetchSymbolData ex s0 requested since limitArg = Some out \<and> returned out = Inr data \<longrightarrow>
           sorted_wrt before (map timestampOf data)))"
proof (intro conjI allI impI)
  fix st st'
  assume "loopBody ex symbol limit st = Continue st'"
  from loopBody_Continue_cases[OF this]
  show "\<exists>page t rest.
         fetchOHLCV ex (adapterState st) symbol ''1d'' (currentSince st) limit =
           (Inr page, adapterState st') \<and>
         page \<noteq> [] \<and> last page = JArray (JNumber t # rest) \<and>
         allData st' = allData st @ page \<and> currentSince st' = num_add1 t"
    by auto
next
  fix st
  show "calls (stateAfter (loopBody ex symbol limit st)) = calls st \<or>
         calls (stateAfter (loopBody ex symbol limit st)) =
           calls st @ [(symbol, ''1d'', currentSince st, limit)]"
    by (rule loopBody_calls)
next
  fix before n st
  assume order: "(before = num_le \<or> before = num_less) \<and> ascendingAdapter before ex"
    and reach: "turns ex symbol limit n (initialState startDate s1) = Some st"
  have start: "ascendingSoFar before (initialState startDate s1)"
    by (simp add: ascendingSoFar_def initialState_def)
  from order have "timeOrder before" by (auto intro: timeOrder_le timeOrder_less)
  moreover from order have "ascendingAdapter before ex" by simp
  ultimately have "ascendingSoFar before st" using start reach by (rule ascending_turns)
  then show "sorted_wrt before (map timestampOf (allData st))"
    by (simp add: ascendingSoFar_def)
next
  fix before s0 requested since limitArg out data
  assume order: "(before = num_le \<or> before = num_less) \<and> ascendingAdapter before ex"
    and result: "fetchSymbolData ex s0 requested since limitArg = Some out \<and> returned out = Inr data"
  from order have "timeOrder before" by (auto intro: timeOrder_le timeOrder_less)
  moreover from order have "ascendingAdapter before ex" by simp
  moreover from result have "fetchSymbolData ex s0 requested since limitArg = Some out"
    and "returned out = Inr data" by simp_all
  ultimately show "sorted_wrt before (map timestampOf data)" by (rule ascending_result)
qed

theorem cursor_and_order_witness:
  "ascendingAdapter num_less orderedAdapter
   \<and> loopBody orderedAdapter ''ETH/USDT'' (Dec 2 0) (initialState (Dec 1 0) ()) =
       Continue \<lparr>allData = [tick 1, tick 2], currentSince = Dec 3 0, totalRequests = 1,
                 adapterState = (), calls = [(''ETH/USDT'', ''1d'', Dec 1 0, Dec 2 0)]\<rparr>
   \<and> fetchSymbolData orderedAdapter () ''ETH/USDT'' (Some (Dec 1 0)) (Some (Dec 2 0)) =
       Some \<lparr>returned = Inr [tick 1, tick 2, tick 3],
             requests = [(''ETH/USDT'', ''1d'', Dec 1 0, Dec 2 0),
                         (''ETH/USDT'', ''1d'', Dec 3 0, Dec 2 0)],
             adapterAfter = ()\<rparr>
   \<and> sorted_wrt num_less (map timestampOf [tick 1, tick 2, tick 3])"
proof -
  let ?st0 = "initialState (Dec 1 0) ()"
  let ?st1 = "\<lparr>allData = [tick 1, tick 2], currentSince = Dec 3 0, totalRequests = 1,
      adapterState = (), calls = [(''ETH/USDT'', ''1d'', Dec 1 0, Dec 2 0)]\<rparr>"
  let ?st2 = "\<lparr>allData = [tick 1, tick 2, tick 3], currentSince = Dec 4 0, totalRequests = 2,
      adapterState = (),
      calls = [(''ETH/USDT'', ''1d'', Dec 1 0, Dec 2 0), (''ETH/USDT'', ''1d'', Dec 3 0, Dec 2 0)]\<rparr>"
  have base: "sorted_wrt num_less (map timestampOf [tick 1, tick 2, tick 3])"
    by (simp add: tick_def timestampOf_def)
  have adapter: "ascendingAdapter num_less orderedAdapter"
    unfolding ascendingAdapter_def orderedAdapter_def
  proof (intro allI impI conjI ballI)
    fix s :: unit and symbol timeframe :: string and since limit page and s' :: unit and item
    assume resp: "fetchOHLCV
        \<lparr>loadMarkets = \<lambda>s. (Inr ethCatalog, s),
         fetchOHLCV = \<lambda>s symbol timeframe since limit.
           (Inr (take 2 (filter (\<lambda>item. num_le since (timestampOf item)) [tick 1, tick 2, tick 3])), s)\<rparr>
        s symbol timeframe since limit = (Inr page, s')"
    then have page: "page = take 2 (filter (\<lambda>item. num_le since (timestampOf item)) [tick 1, tick 2, tick 3])"
      by simp
    from base have "sorted_wrt (\<lambda>x y. num_less (timestampOf x) (timestampOf y)) [tick 1, tick 2, tick 3]"
      by (simp only: sorted_wrt_map)
    then have "sorted_wrt (\<lambda>x y. num_less (timestampOf x) (timestampOf y)) page"
      unfolding page by (intro sorted_wrt_take sorted_wrt_filter)
    then show "sorted_wrt num_less (map timestampOf page)" by (simp only: sorted_wrt_map)
    show "num_le since (timestampOf item)" if "item \<in> set page"
    proof -
      from that
      have "item \<in> set (filter (\<lambda>item. num_le since (timestampOf item)) [tick 1, tick 2, tick 3])"
        unfolding page by (rule in_set_takeD)
      then show ?thesis by (simp only: set_filter mem_Collect_eq)
    qed
  qed
  have turn1: "loopBody orderedAdapter ''ETH/USDT'' (Dec 2 0) ?st0 = Continue ?st1"
    by (simp add: loopBody_def orderedAdapter_def initialState_def toISOStringThrows_def Let_def
        tick_def timestampOf_def)
  have turn2: "loopBody orderedAdapter ''ETH/USDT'' (Dec 2 0) ?st1 = Break ?st2"
    by (simp add: loopBody_def orderedAdapter_def toISOStringThrows_def Let_def
        tick_def timestampOf_def)
  have "fetchLoop orderedAdapter ''ETH/USDT'' (Dec 2 0) ?st0 = Some (Inr ?st2)"
    by (rule trans[OF fetchLoop_Continue[OF turn1] fetchLoop_Break[OF turn2]])
  then have run: "fetchSymbolData orderedAdapter () ''ETH/USDT'' (Some (Dec 1 0)) (Some (Dec 2 0)) =
       Some \<lparr>returned = Inr [tick 1, tick 2, tick 3],
             requests = [(''ETH/USDT'', ''1d'', Dec 1 0, Dec 2 0),
                         (''ETH/USDT'', ''1d'', Dec 3 0, Dec 2 0)],
             adapterAfter = ()\<rparr>"
    by (simp add: fetchSymbolData_def orderedAdapter_def resolveSymbol_def truthyProperty_def ethCatalog_def
        startDateOf_def limitOf_def toISOStringThrows_def loopOutcome_def)
  from cursor_and_order[of orderedAdapter "''ETH/USDT''" "Dec 2 0" "Dec 1 0" "()"] adapter run
  have "sorted_wrt num_less (map timestampOf [tick 1, tick 2, tick 3])"
    by (metis fetch_outcome.select_convs(1))
  with adapter turn1 run show ?thesis by simp
qed

section \<open>Stopping on a malformed page, and errors\<close>

text \<open>
  C6. When, after any number of earlier pages, the adapter answers a request with a page whose
  last entry has no valid numeric timestamp (it is missing, not an array, an empty array, or
  an array whose first element is not a number), \<open>fetchSymbolData\<close> leaves the loop at once
  and returns, with no error, all it has accumulated, the entries of that page included;
  that request is the last one it issues.
\<close>

theorem malformed_last_entry_stops:
  assumes "loadMarkets ex s0 = (Inr markets, s1)"
    and "resolveSymbol markets symbol = Some symbol'"
    and "\<not> toISOStringThrows (startDateOf since)"
    and "turns ex symbol' (limitOf limitArg) n (initialState (startDateOf since) s1) = Some st"
    and "\<not> toISOStringThrows (currentSince st)"
    and "fetchOHLCV ex (adapterState st) symbol' ''1d'' (currentSince st) (limitOf limitArg) =
           (Inr page, s')"
    and "page \<noteq> []"
    and "lacksNumericTimestamp (last page)"
  shows "fetchSymbolData ex s0 symbol since limitArg =
    Some \<lparr>returned = Inr (allData st @ page),
          requests = calls st @ [(symbol', ''1d'', currentSince st, limitOf limitArg)],
          adapterAfter = s'\<rparr>"
proof -
  let ?lim = "limitOf limitArg"
  let ?stf = "st\<lparr>totalRequests := totalRequests st + 1, adapterState := s',
      calls := calls st @ [(symbol', ''1d'', currentSince st, ?lim)],
      allData := allData st @ page\<rparr>"
  have "loopBody ex symbol' ?lim st = Break ?stf"
    using assms(5-8) by (rule loopBody_invalid_last)
  then have "fetchLoop ex symbol' ?lim st = Some (Inr ?stf)"
    by (rule fetchLoop_Break)
  with turns_fetchLoop[OF assms(4)]
  have "fetchLoop ex symbol' ?lim (initialState (startDateOf since) s1) = Some (Inr ?stf)"
    by simp
  with assms(1-3) show ?thesis
    by (simp add: fetchSymbolData_def Let_def loopOutcome_def)
qed

theorem malformed_last_entry_stops_witness:
  "fetchSymbolData (simulatedAdapter (Inr ethCatalog))
      [Inr [tick 1], Inr [tick 2, JArray [JString ''n/a'', JNumber (Dec 7 0)]], Inr [tick 3]]
      ''ETH/USDT'' None (Some (Dec 1 0)) =
    Some \<lparr>returned = Inr [tick 1, tick 2, JArray [JString ''n/a'', JNumber (Dec 7 0)]],
          requests = [(''ETH/USDT'', ''1d'', Dec 1577836800000 0, Dec 1 0),
                      (''ETH/USDT'', ''1d'', Dec 2 0, Dec 1 0)],
          adapterAfter = [Inr [tick 3]]\<rparr>"
proof -
  let ?ex = "simulatedAdapter (Inr ethCatalog)"
  let ?bad = "JArray [JString ''n/a'', JNumber (Dec 7 0)]"
  let ?s1 = "[Inr [tick 1], Inr [tick 2, ?bad], Inr [tick 3]]"
  let ?st1 = "\<lparr>allData = [tick 1], currentSince = Dec 2 0, totalRequests = 1,
      adapterState = [Inr [tick 2, ?bad], Inr [tick 3]],
      calls = [(''ETH/USDT'', ''1d'', Dec 1577836800000 0, Dec 1 0)]\<rparr>"
  have start: "startDateOf None = Dec 1577836800000 0"
    by (simp add: startDateOf_def defaultStart_def)
  have "loopBody ?ex ''ETH/USDT'' (Dec 1 0) (initialState (Dec 1577836800000 0) ?s1) = Continue ?st1"
    by (simp add: loopBody_def simulatedAdapter_def initialState_def toISOStringThrows_def
        Let_def tick_def)
  then have reach: "turns ?ex ''ETH/USDT'' (limitOf (Some (Dec 1 0))) 1
      (initialState (startDateOf None) ?s1) = Some ?st1"
    by (simp add: start limitOf_def)
  show ?thesis
    using malformed_last_entry_stops[of ?ex ?s1 ethCatalog ?s1 "''ETH/USDT''" "''ETH/USDT''" None
        "Some (Dec 1 0)" 1 ?st1 "[tick 2, ?bad]" "[Inr [tick 3]]"] reach
    by (simp add: simulatedAdapter_def resolveSymbol_def truthyProperty_def ethCatalog_def start
        toISOStringThrows_def limitOf_def lacksNumericTimestamp_def)
qed

text \<open>
  An error the adapter raises in \<^verbatim>\<open>loadMarkets\<close>, or in a page fetch after any number of
  earlier pages, is what \<open>fetchSymbolData\<close> raises, unchanged and with no further request.
\<close>

lemma loadMarkets_error_reraised:
  assumes "loadMarkets ex s0 = (Inl e, s1)"
  shows "fetchSymbolData ex s0 symbol since limitArg =
    Some \<lparr>returned = Inl e, requests = [], adapterAfter = s1\<rparr>"
  using assms by (simp add: fetchSymbolData_def)

lemma fetchOHLCV_error_reraised:
  assumes "loadMarkets ex s0 = (Inr markets, s1)"
    and "resolveSymbol markets symbol = Some symbol'"
    and "\<not> toISOStringThrows (startDateOf since)"
    and "turns ex symbol' (limitOf limitArg) n (initialState (startDateOf since) s1) = Some st"
    and "\<not> toISOStringThrows (currentSince st)"
    and "fetchOHLCV ex (adapterState st) symbol' ''1d'' (currentSince st) (limitOf limitArg) =
      (Inl e, s')"
  shows "fetchSymbolData ex s0 symbol since limitArg =
    Some \<lparr>returned = Inl e,
          requests = calls st @ [(symbol', ''1d'', currentSince st, limitOf limitArg)],
          adapterAfter = s'\<rparr>"
proof -
  let ?lim = "limitOf limitArg"
  let ?stf = "st\<lparr>totalRequests := totalRequests st + 1, adapterState := s',
      calls := calls st @ [(symbol', ''1d'', currentSince st, ?lim)]\<rparr>"
  from assms(5,6) have "loopBody ex symbol' ?lim st = Throw e ?stf"
    by (simp add: loopBody_def Let_def)
  then have "fetchLoop ex symbol' ?lim st = Some (Inl (e, ?stf))"
    by (rule fetchLoop_Throw)
  moreover from assms(4)
  have "fetchLoop ex symbol' ?lim (initialState (startDateOf since) s1) =
      fetchLoop ex symbol' ?lim st"
    by (rule turns_fetchLoop)
  ultimately
  have "fetchLoop ex symbol' ?lim (initialState (startDateOf since) s1) = Some (Inl (e, ?stf))"
    by simp
  with assms(1-3) show ?thesis
    by (simp add: fetchSymbolData_def Let_def loopOutcome_def)
qed

text \<open>
  Where an error that \<open>fetchSymbolData\<close> raises comes from: \<^verbatim>\<open>loadMarkets\<close> raised it; or the
  \<^verbatim>\<open>fetchOHLCV\<close> request of the last turn of the loop raised it; or it is the \<^verbatim>\<open>RangeError\<close> of
  \<^verbatim>\<open>toISOString()\<close>, thrown while the log line of line 105 or 113 is built for a start or a
  cursor that is no valid date.
\<close>

lemma raised_error_origin:
  assumes "fetchSymbolData ex s0 symbol since limitArg = Some out"
    and "returned out = Inl e"
  shows "(\<exists>s. loadMarkets ex s0 = (Inl e, s)) \<or>
    (\<exists>markets s1 found.
       loadMarkets ex s0 = (Inr markets, s1) \<and> resolveSymbol markets symbol = Some found \<and>
       ((e = rangeError \<and> toISOStringThrows (startDateOf since)) \<or>
        (\<exists>k st.
           turns ex found (limitOf limitArg) k (initialState (startDateOf since) s1) = Some st \<and>
           ((e = rangeError \<and> toISOStringThrows (currentSince st)) \<or>
            (fetchOHLCV ex (adapterState st) found ''1d'' (currentSince st) (limitOf limitArg) =
               (Inl e, adapterAfter out) \<and>
             requests out = calls st @ [(found, ''1d'', currentSince st, limitOf limitArg)])))))"
proof -
  let ?lim = "limitOf limitArg"
  obtain r sa where lm: "loadMarkets ex s0 = (r, sa)" by (cases "loadMarkets ex s0")
  show ?thesis
  proof (cases r)
    case (Inl e')
    with lm assms show ?thesis by (auto simp: fetchSymbolData_def)
  next
    case (Inr catalog)
    show ?thesis
    proof (cases "resolveSymbol catalog symbol")
      case None
      with lm Inr assms show ?thesis by (auto simp: fetchSymbolData_def)
    next
      case (Some found)
      show ?thesis
      proof (cases "toISOStringThrows (startDateOf since)")
        case True
        with lm Inr Some assms have "e = rangeError"
          by (auto simp: fetchSymbolData_def Let_def)
        with True lm Inr Some show ?thesis by blast
      next
        case False
        let ?st0 = "initialState (startDateOf since) sa"
        from lm Inr Some False assms
        obtain r' where loop: "fetchLoop ex found ?lim ?st0 = Some r'"
          and out: "out = loopOutcome r'"
          by (auto simp: fetchSymbolData_def Let_def)
        from out assms(2) obtain stf where r': "r' = Inl (e, stf)"
          and req: "requests out = calls stf" and after: "adapterAfter out = adapterState stf"
          by (cases r') (auto simp: loopOutcome_def)
        from fetchLoop_turns[OF loop] r' obtain k st' where
          reach: "turns ex found ?lim k ?st0 = Some st'"
          and final: "loopBody ex found ?lim st' = Throw e stf"
          by auto
        from loopBody_Throw_cases[OF final]
        have "(e = rangeError \<and> toISOStringThrows (currentSince st')) \<or>
            (fetchOHLCV ex (adapterState st') found ''1d'' (currentSince st') ?lim =
               (Inl e, adapterAfter out) \<and>
             requests out = calls st' @ [(found, ''1d'', currentSince st', ?lim)])"
          using req after by auto
        with reach lm Inr Some show ?thesis by blast
      qed
    qed
  qed
qed

lemma adapter_errors_reraised_examples:
  "fetchSymbolData (simulatedAdapter (Inl (Error ''NetworkError'' ''timed out''))) []
      ''ETH/USDT'' None None =
     Some \<lparr>returned = Inl (Error ''NetworkError'' ''timed out''), requests = [],
           adapterAfter = []\<rparr>
   \<and> fetchSymbolData (simulatedAdapter (Inr ethCatalog))
      [Inr [tick 1], Inl (Error ''RateLimitExceeded'' ''rate limit''), Inr [tick 3]]
      ''ETH/USDT'' None (Some (Dec 1 0)) =
     Some \<lparr>returned = Inl (Error ''RateLimitExceeded'' ''rate limit''),
           requests = [(''ETH/USDT'', ''1d'', Dec 1577836800000 0, Dec 1 0),
                       (''ETH/USDT'', ''1d'', Dec 2 0, Dec 1 0)],
           adapterAfter = [Inr [tick 3]]\<rparr>"
proof -
  let ?down = "Error ''NetworkError'' ''timed out''"
  let ?limited = "Error ''RateLimitExceeded'' ''rate limit''"
  let ?ex = "simulatedAdapter (Inr ethCatalog)"
  let ?s1 = "[Inr [tick 1], Inl ?limited, Inr [tick 3]]"
  let ?st1 = "\<lparr>allData = [tick 1], currentSince = Dec 2 0, totalRequests = 1,
      adapterState = [Inl ?limited, Inr [tick 3]],
      calls = [(''ETH/USDT'', ''1d'', Dec 1577836800000 0, Dec 1 0)]\<rparr>"
  have start: "startDateOf None = Dec 1577836800000 0"
    by (simp add: startDateOf_def defaultStart_def)
  have first: "fetchSymbolData (simulatedAdapter (Inl ?down)) [] ''ETH/USDT'' None None =
     Some \<lparr>returned = Inl ?down, requests = [], adapterAfter = []\<rparr>"
    by (rule loadMarkets_error_reraised) (simp add: simulatedAdapter_def)
  have "loopBody ?ex ''ETH/USDT'' (Dec 1 0) (initialState (Dec 1577836800000 0) ?s1) = Continue ?st1"
    by (simp add: loopBody_def simulatedAdapter_def initialState_def toISOStringThrows_def
        Let_def tick_def)
  then have reach: "turns ?ex ''ETH/USDT'' (limitOf (Some (Dec 1 0))) 1
      (initialState (startDateOf None) ?s1) = Some ?st1"
    by (simp add: start limitOf_def)
  have second: "fetchSymbolData ?ex ?s1 ''ETH/USDT'' None (Some (Dec 1 0)) =
     Some \<lparr>returned = Inl ?limited,
           requests = calls ?st1 @ [(''ETH/USDT'', ''1d'', currentSince ?st1, limitOf (Some (Dec 1 0)))],
           adapterAfter = [Inr [tick 3]]\<rparr>"
    using fetchOHLCV_error_reraised[of ?ex ?s1 ethCatalog ?s1 "''ETH/USDT''" "''ETH/USDT''" None
        "Some (Dec 1 0)" 1 ?st1 ?limited "[Inr [tick 3]]"] reach
    by (simp add: simulatedAdapter_def resolveSymbol_def truthyProperty_def ethCatalog_def start
        toISOStringThrows_def limitOf_def)
  from first second show ?thesis by (simp add: limitOf_def)
qed

text \<open>
  C7, at two inputs where the adapter raises nothing and \<open>fetchSymbolData\<close> raises. With
  limit 1 and a page holding one candle whose timestamp is \<^verbatim>\<open>NaN\<close>, the guard
  \<^verbatim>\<open>typeof lastTimestamp === 'number'\<close> of line 137 lets the timestamp through, the cursor
  becomes \<^verbatim>\<open>NaN\<close>, and the second turn throws the \<^verbatim>\<open>RangeError\<close> of \<^verbatim>\<open>toISOString()\<close> while it
  builds the log line of line 113, after the one request the adapter answered. With a start
  beyond the last valid date, the log line of line 105 throws it before any request.
\<close>

theorem raises_without_adapter_error:
  "loadMarkets (simulatedAdapter (Inr ethCatalog)) [] = (Inr ethCatalog, [])
   \<and> fetchSymbolData (simulatedAdapter (Inr ethCatalog)) [] ''ETH/USDT''
       (Some (Dec 8640000000000001 0)) None =
     Some \<lparr>returned = Inl rangeError, requests = [], adapterAfter = []\<rparr>
   \<and> fetchOHLCV (simulatedAdapter (Inr ethCatalog)) [Inr [JArray [JNumber NaN]]]
       ''ETH/USDT'' ''1d'' (Dec 1577836800000 0) (Dec 1 0) = (Inr [JArray [JNumber NaN]], [])
   \<and> fetchSymbolData (simulatedAdapter (Inr ethCatalog)) [Inr [JArray [JNumber NaN]]]
       ''ETH/USDT'' None (Some (Dec 1 0)) =
     Some \<lparr>returned = Inl rangeError,
           requests = [(''ETH/USDT'', ''1d'', Dec 1577836800000 0, Dec 1 0)],
           adapterAfter = []\<rparr>"
proof -
  let ?ex = "simulatedAdapter (Inr ethCatalog)"
  let ?page = "[JArray [JNumber NaN]]"
  let ?call = "(''ETH/USDT'', ''1d'', Dec 1577836800000 0, Dec 1 0)"
  let ?st1 = "\<lparr>allData = ?page, currentSince = NaN, totalRequests = 1,
      adapterState = [], calls = [?call]\<rparr>"
  let ?st2 = "\<lparr>allData = ?page, currentSince = NaN, totalRequests = 2,
      adapterState = [], calls = [?call]\<rparr>"
  have turn1: "loopBody ?ex ''ETH/USDT'' (Dec 1 0) (initialState (Dec 1577836800000 0) [Inr ?page]) =
      Continue ?st1"
    by (simp add: loopBody_def simulatedAdapter_def initialState_def toISOStringThrows_def Let_def)
  have turn2: "loopBody ?ex ''ETH/USDT'' (Dec 1 0) ?st1 = Throw rangeError ?st2"
    by (simp add: loopBody_def toISOStringThrows_def Let_def)
  have "fetchLoop ?ex ''ETH/USDT'' (Dec 1 0) (initialState (Dec 1577836800000 0) [Inr ?page]) =
      Some (Inl (rangeError, ?st2))"
    by (rule trans[OF fetchLoop_Continue[OF turn1] fetchLoop_Throw[OF turn2]])
  then have "fetchSymbolData ?ex [Inr ?page] ''ETH/USDT'' None (Some (Dec 1 0)) =
     Some \<lparr>returned = Inl rangeError, requests = [?call], adapterAfter = []\<rparr>"
    by (simp add: fetchSymbolData_def simulatedAdapter_def resolveSymbol_def truthyProperty_def ethCatalog_def
        startDateOf_def defaultStart_def limitOf_def toISOStringThrows_def loopOutcome_def)
  moreover have "fetchSymbolData ?ex [] ''ETH/USDT'' (Some (Dec 8640000000000001 0)) None =
     Some \<lparr>returned = Inl rangeError, requests = [], adapterAfter = []\<rparr>"
    by (simp add: fetchSymbolData_def simulatedAdapter_def resolveSymbol_def truthyProperty_def ethCatalog_def
        startDateOf_def toISOStringThrows_def)
  ultimately show ?thesis by (simp add: simulatedAdapter_def)
qed

section \<open>The CSV file\<close>

subsection \<open>Digits and numbers\<close>

lemma digitValue_digit: "n < 10 \<Longrightarrow> digitValue (''0123456789'' ! n) = Some n"
proof -
  assume "n < 10"
  then have "n \<in> {0, 1, 2, 3, 4, 5, 6, 7, 8, 9}"
    by (simp only: insert_iff empty_iff) presburger
  then show ?thesis by (elim insertE emptyE) (simp_all add: digitValue_def)
qed

lemma readDigitsFrom_append:
  "readDigitsFrom acc (a @ b) =
     (case readDigitsFrom acc a of None \<Rightarrow> None | Some v \<Rightarrow> readDigitsFrom v b)"
  by (induction a arbitrary: acc) (simp_all split: option.splits)

text \<open>The digits of a number read as the number, after whatever was read before them.\<close>

lemma readDigitsFrom_natDigits:
  "readDigitsFrom acc (natDigits n) = Some (acc * 10 ^ length (natDigits n) + n)"
proof (induction n arbitrary: acc rule: natDigits.induct)
  case (1 n)
  show ?case
  proof (cases "n < 10")
    case True
    then show ?thesis by (subst (1 2) natDigits.simps) (simp add: digitValue_digit)
  next
    case False
    have split: "natDigits n = natDigits (n div 10) @ [''0123456789'' ! (n mod 10)]"
      using False by (subst natDigits.simps) simp
    have "n mod 10 < 10" by simp
    note last = digitValue_digit[OF this]
    have "10 * (n div 10) + n mod 10 = n" by simp
    then show ?thesis
      unfolding split readDigitsFrom_append "1.IH"[OF False]
      by (simp add: last algebra_simps)
  qed
qed

lemma readDigitsFrom_zeros:
  "readDigitsFrom acc (replicate k (CHR ''0'')) = Some (acc * 10 ^ k)"
  by (induction k arbitrary: acc) (simp_all add: digitValue_def)

lemma natDigits_nonempty: "natDigits n \<noteq> []"
  by (subst natDigits.simps) simp

lemma digit_chars: "n < 10 \<Longrightarrow> ''0123456789'' ! n \<in> set ''0123456789''"
  by (rule nth_mem) simp

lemma natDigits_chars: "set (natDigits n) \<subseteq> set ''0123456789''"
proof (induction n rule: natDigits.induct)
  case (1 n)
  show ?case
  proof (cases "n < 10")
    case True
    then show ?thesis using digit_chars[OF True] by (subst natDigits.simps) simp
  next
    case False
    have "n mod 10 < 10" by simp
    from digit_chars[OF this] "1.IH"[OF False] False show ?thesis
      by (subst natDigits.simps) simp
  qed
qed


text \<open>
  A text made of a whole part, a fraction after a point or none, and an exponent or none,
  reads as the digits of the two parts together, scaled by the exponent less the length
  of the fraction.
\<close>

lemma readUnsigned_parts:
  assumes w: "CHR ''e'' \<notin> set w" "CHR ''.'' \<notin> set w" "w \<noteq> []"
    and f: "CHR ''e'' \<notin> set f"
    and fr: "fr = [] \<and> f = [] \<or> fr = ''.'' @ f \<and> f \<noteq> []"
    and ex: "ex = [] \<or> (\<exists>r. ex = CHR ''e'' # r)"
    and X: "readExponent ex = Some X"
    and val: "readDigitsFrom 0 (w @ f) = Some M"
  shows "readUnsigned (w @ fr @ ex) = Some (int M, X - int (length f))"
proof -
  have noE: "\<forall>c \<in> set (w @ fr). c \<noteq> CHR ''e''" using w(1) f fr by auto
  have tw: "takeWhile (\<lambda>c. c \<noteq> CHR ''e'') ex = []" and dw: "dropWhile (\<lambda>c. c \<noteq> CHR ''e'') ex = ex"
    using ex by auto
  have "mantissaOf ((w @ fr) @ ex) = (w @ fr) @ takeWhile (\<lambda>c. c \<noteq> CHR ''e'') ex"
    unfolding mantissaOf_def using noE by (intro takeWhile_append2) simp
  then have mant: "mantissaOf (w @ fr @ ex) = w @ fr" by (simp add: tw)
  have "exponentOf ((w @ fr) @ ex) = dropWhile (\<lambda>c. c \<noteq> CHR ''e'') ex"
    unfolding exponentOf_def using noE by (intro dropWhile_append2) simp
  then have expo: "exponentOf (w @ fr @ ex) = ex" by (simp add: dw)
  have tf: "takeWhile (\<lambda>c. c \<noteq> CHR ''.'') fr = []" and df: "dropWhile (\<lambda>c. c \<noteq> CHR ''.'') fr = fr"
    using fr by auto
  have noP: "\<forall>c \<in> set w. c \<noteq> CHR ''.''" using w(2) by auto
  have "wholeOf (w @ fr) = w @ takeWhile (\<lambda>c. c \<noteq> CHR ''.'') fr"
    unfolding wholeOf_def using noP by (intro takeWhile_append2) simp
  then have whole: "wholeOf (w @ fr) = w" by (simp add: tf)
  have "fractionOf (w @ fr) = dropWhile (\<lambda>c. c \<noteq> CHR ''.'') fr"
    unfolding fractionOf_def using noP by (intro dropWhile_append2) simp
  then have frac: "fractionOf (w @ fr) = fr" by (simp add: df)
  have rf: "readFraction fr = Some f" using fr by (auto simp add: readFraction_def)
  from val obtain wv where wv: "readDigitsFrom 0 w = Some wv" and rest: "readDigitsFrom wv f = Some M"
    by (auto simp add: readDigitsFrom_append split: option.splits)
  from wv w(3) have rw: "readDigits w = Some wv" by (simp add: readDigits_def)
  show ?thesis
    unfolding readUnsigned_def mant expo whole frac rf rw X by (simp add: rest)
qed

lemma trailingZeros_split:
  "0 < a \<Longrightarrow> (a div 10 ^ trailingZeros a) * 10 ^ trailingZeros a = a \<and>
     0 < a div 10 ^ trailingZeros a"
proof (induction a rule: trailingZeros.induct)
  case (1 n)
  show ?case
  proof (cases "n = 0 \<or> n mod 10 \<noteq> 0")
    case True
    then have "trailingZeros n = 0" by (subst trailingZeros.simps) simp
    with "1.prems" show ?thesis by simp
  next
    case False
    then have tz: "trailingZeros n = Suc (trailingZeros (n div 10))"
      by (subst trailingZeros.simps) simp
    from False "1.prems" have pos: "0 < n div 10" by presburger
    from False have n: "n = 10 * (n div 10)" by presburger
    have d: "n div 10 ^ Suc (trailingZeros (n div 10)) = n div 10 div 10 ^ trailingZeros (n div 10)"
      by (simp add: div_mult2_eq)
    from "1.IH"[OF False pos] show ?thesis
      unfolding tz d using n by (metis mult.assoc mult.commute power_Suc)
  qed
qed


lemma natDigits_plain:
  "CHR ''e'' \<notin> set (natDigits v)" "CHR ''.'' \<notin> set (natDigits v)" "CHR ''-'' \<notin> set (natDigits v)"
  using natDigits_chars[of v] by auto

lemma readUnsigned_first:
  assumes "w \<noteq> []" and "CHR ''-'' \<notin> set w"
  shows "take 1 (w @ rest) \<noteq> ''-''"
  using assms by (cases w) auto

lemma readExponent_form:
  "readExponent (''e'' @ (if x < 0 then ''-'' else ''+'') @ natDigits (nat \<bar>x\<bar>)) = Some x"
  by (simp add: readExponent_def readDigits_def natDigits_nonempty readDigitsFrom_natDigits)

text \<open>
  Whichever of the four notations of \<^verbatim>\<open>Number::toString\<close> the position of the point
  selects, with or without an exponent, the text reads as the number the digits make,
  times ten to the power of the position less their count.
\<close>

lemma placePoint_reads:
  fixes v :: nat and n :: int
  shows "\<exists>M X. readUnsigned (placePoint (natDigits v) n) = Some (M, X) \<and>
      take 1 (placePoint (natDigits v) n) \<noteq> ''-'' \<and>
      (M = int v \<and> X = n - int (length (natDigits v)) \<or>
       M = int v * 10 ^ nat (n - int (length (natDigits v))) \<and> X = 0 \<and>
         int (length (natDigits v)) \<le> n)"
proof -
  define s where "s = natDigits v"
  define k where "k = length s"
  note plain = natDigits_plain[of v, folded s_def]
  have nonempty: "s \<noteq> []" by (simp add: s_def natDigits_nonempty)
  then have k: "0 < k" by (simp add: k_def)
  have digits: "readDigitsFrom 0 s = Some v" by (simp add: s_def readDigitsFrom_natDigits)
  have none: "readExponent [] = Some 0" by (simp add: readExponent_def)
  consider (whole) "int k \<le> n \<and> n \<le> 21"
    | (point) "\<not> (int k \<le> n \<and> n \<le> 21)" "0 < n \<and> n \<le> 21"
    | (small) "\<not> (int k \<le> n \<and> n \<le> 21)" "\<not> (0 < n \<and> n \<le> 21)" "- 6 < n \<and> n \<le> 0"
    | (expo) "\<not> (int k \<le> n \<and> n \<le> 21)" "\<not> (0 < n \<and> n \<le> 21)" "\<not> (- 6 < n \<and> n \<le> 0)"
    by blast
  then have "\<exists>M X. readUnsigned (placePoint s n) = Some (M, X) \<and>
      take 1 (placePoint s n) \<noteq> ''-'' \<and>
      (M = int v \<and> X = n - int k \<or> M = int v * 10 ^ nat (n - int k) \<and> X = 0 \<and> int k \<le> n)"
  proof cases
    case whole
    let ?w = "s @ replicate (nat (n - int k)) (CHR ''0'')"
    have form: "placePoint s n = ?w @ [] @ []"
      using whole by (simp add: placePoint_def k_def)
    have "readDigitsFrom 0 (?w @ []) = Some (v * 10 ^ nat (n - int k))"
      by (simp add: readDigitsFrom_append digits readDigitsFrom_zeros)
    then have "readUnsigned (?w @ [] @ []) = Some (int (v * 10 ^ nat (n - int k)), 0 - int (length ([]::string)))"
      using plain nonempty none by (intro readUnsigned_parts) auto
    moreover have "take 1 (?w @ [] @ []) \<noteq> ''-''"
      using plain nonempty by (intro readUnsigned_first) auto
    ultimately show ?thesis using whole unfolding form by simp
  next
    case point
    then have n: "0 < n" "n < int k" by auto
    let ?w = "take (nat n) s" and ?f = "drop (nat n) s"
    have form: "placePoint s n = ?w @ (''.'' @ ?f) @ []"
      using point by (simp add: placePoint_def k_def)
    have w: "?w \<noteq> []" and f: "?f \<noteq> []" using n nonempty by (auto simp add: k_def)
    have sets: "set ?w \<subseteq> set s" "set ?f \<subseteq> set s" by (auto dest: in_set_takeD in_set_dropD)
    have "readDigitsFrom 0 (?w @ ?f) = Some v" by (simp add: digits)
    then have "readUnsigned (?w @ (''.'' @ ?f) @ []) = Some (int v, 0 - int (length ?f))"
      using plain sets w f none by (intro readUnsigned_parts) auto
    moreover have "take 1 (?w @ (''.'' @ ?f) @ []) \<noteq> ''-''"
      using plain sets w by (intro readUnsigned_first) auto
    moreover have "0 - int (length ?f) = n - int k" using n by (simp add: k_def)
    ultimately show ?thesis unfolding form by simp
  next
    case small
    let ?f = "replicate (nat (- n)) (CHR ''0'') @ s"
    have form: "placePoint s n = ''0'' @ (''.'' @ ?f) @ []"
      using small by (simp add: placePoint_def k_def)
    have "readDigitsFrom 0 (''0'' @ ?f) = Some v"
      by (simp add: readDigitsFrom_append readDigitsFrom_zeros digits digitValue_def)
    then have "readUnsigned (''0'' @ (''.'' @ ?f) @ []) = Some (int v, 0 - int (length ?f))"
      using plain nonempty none by (intro readUnsigned_parts) auto
    moreover have "take 1 (''0'' @ (''.'' @ ?f) @ []) \<noteq> ''-''" by simp
    moreover have "0 - int (length ?f) = n - int k" using small by (simp add: k_def)
    ultimately show ?thesis unfolding form by simp
  next
    case expo
    let ?ex = "''e'' @ (if n - 1 < 0 then ''-'' else ''+'') @ natDigits (nat \<bar>n - 1\<bar>)"
    have ex: "readExponent ?ex = Some (n - 1)" by (rule readExponent_form)
    have exE: "?ex = [] \<or> (\<exists>r. ?ex = CHR ''e'' # r)" by simp
    have pe: "placePoint s n = exponentForm s n"
      unfolding placePoint_def using expo[unfolded k_def] by (simp only: if_False)
    show ?thesis
    proof (cases "k = 1")
      case True
      have form: "placePoint s n = s @ [] @ ?ex"
        using True by (simp add: pe exponentForm_def k_def)
      have "readDigitsFrom 0 (s @ []) = Some v" by (simp add: digits)
      then have "readUnsigned (s @ [] @ ?ex) = Some (int v, (n - 1) - int (length ([]::string)))"
        using plain nonempty ex exE by (intro readUnsigned_parts) auto
      moreover have "take 1 (s @ [] @ ?ex) \<noteq> ''-''"
        using plain nonempty by (intro readUnsigned_first) auto
      ultimately show ?thesis unfolding form using True by simp
    next
      case False
      with k have k2: "1 < k" by simp
      let ?w = "take 1 s" and ?f = "drop 1 s"
      have form: "placePoint s n = ?w @ (''.'' @ ?f) @ ?ex"
        using False by (simp add: pe exponentForm_def k_def)
      have w: "?w \<noteq> []" and f: "?f \<noteq> []" using k2 nonempty by (auto simp add: k_def)
      have sets: "set ?w \<subseteq> set s" "set ?f \<subseteq> set s" by (auto dest: in_set_takeD in_set_dropD)
      have "readDigitsFrom 0 (?w @ ?f) = Some v" by (simp add: digits)
      then have "readUnsigned (?w @ (''.'' @ ?f) @ ?ex) = Some (int v, (n - 1) - int (length ?f))"
        using plain sets w f ex exE by (intro readUnsigned_parts) auto
      moreover have "take 1 (?w @ (''.'' @ ?f) @ ?ex) \<noteq> ''-''"
        using plain sets w by (intro readUnsigned_first) auto
      moreover have "(n - 1) - int (length ?f) = n - int k" using k2 by (simp add: k_def)
      ultimately show ?thesis unfolding form by simp
    qed
  qed
  then show ?thesis by (simp add: s_def k_def)
qed


lemma readNumber_minus:
  "readNumber (CHR ''-'' # t) = map_option (\<lambda>(M, X). (- M, X)) (readUnsigned t)"
  by (simp add: readNumber_def)

lemma readNumber_plain: "take 1 t \<noteq> ''-'' \<Longrightarrow> readNumber t = readUnsigned t"
  by (simp add: readNumber_def)

text \<open>Every finite number prints as a text that reads as that number.\<close>

lemma decToString_reads: "readsAs (decToString m e) (Dec m e)"
proof (cases "m = 0")
  case True
  have "readNumber ''0'' = Some (0, 0)"
    by (simp add: readNumber_def readUnsigned_def readDigits_def readFraction_def
        readExponent_def mantissaOf_def exponentOf_def wholeOf_def fractionOf_def digitValue_def)
  then show ?thesis using True by (simp add: decToString_def readsAs_def)
next
  case False
  define a where "a = nat \<bar>m\<bar>"
  define z where "z = trailingZeros a"
  define v where "v = a div 10 ^ z"
  define n where "n = pointPosition m e"
  define sg :: int where "sg = (if m < 0 then - 1 else 1)"
  from False have a: "0 < a" by (simp add: a_def)
  from trailingZeros_split[OF a] have vz: "v * 10 ^ z = a" by (simp add: v_def z_def)
  have m: "m = sg * int a" by (simp add: sg_def a_def)
  have digits: "decDigits m = natDigits v" by (simp add: decDigits_def v_def z_def a_def)
  have n: "n - int (length (natDigits v)) = int z - int e"
    by (simp add: n_def pointPosition_def digits z_def a_def)
  define p where "p = placePoint (natDigits v) n"
  have le: "(int (length (natDigits v)) \<le> n) = (0 \<le> int z - int e)" using n by linarith
  from placePoint_reads[of v n, folded p_def, unfolded n le] obtain M X where
    rd: "readUnsigned p = Some (M, X)" and first: "take 1 p \<noteq> ''-''"
    and shape: "M = int v \<and> X = int z - int e \<or>
      M = int v * 10 ^ nat (int z - int e) \<and> X = 0 \<and> 0 \<le> int z - int e"
    by blast
  have str: "decToString m e = (if m < 0 then ''-'' else []) @ p"
    using False by (simp add: decToString_def digits p_def n_def)
  have "readNumber (decToString m e) = Some (sg * M, X)"
  proof (cases "m < 0")
    case True
    then show ?thesis unfolding str by (simp add: readNumber_minus rd sg_def)
  next
    case False
    then show ?thesis unfolding str by (simp add: readNumber_plain[OF first] rd sg_def)
  qed
  moreover have "sg * M * 10 ^ nat (X + int e) = m * 10 ^ nat (- (X + int e))"
    using shape
  proof
    assume "M = int v \<and> X = int z - int e"
    then have "sg * M * 10 ^ nat (X + int e) = sg * (int v * 10 ^ z)" and "nat (- (X + int e)) = 0"
      by simp_all
    moreover have "int v * 10 ^ z = int a" using vz by (metis of_nat_mult of_nat_numeral of_nat_power)
    ultimately show ?thesis by (simp add: m)
  next
    assume b: "M = int v * 10 ^ nat (int z - int e) \<and> X = 0 \<and> 0 \<le> int z - int e"
    then have "e \<le> z" by simp
    then have "nat (int z - int e) + e = z" by linarith
    then have "(10::int) ^ nat (int z - int e) * 10 ^ e = 10 ^ z" by (simp flip: power_add)
    then have "int v * 10 ^ nat (int z - int e) * 10 ^ e = int v * 10 ^ z" by simp
    moreover have "int v * 10 ^ z = int a" using vz by (metis of_nat_mult of_nat_numeral of_nat_power)
    ultimately have "sg * M * 10 ^ nat (X + int e) = sg * int a" using b by simp
    then show ?thesis using b by (simp add: m)
  qed
  ultimately show ?thesis by (simp add: readsAs_def)
qed

subsection \<open>The calendar\<close>

lemma div_next:
  fixes x k :: int
  assumes "0 < k"
  shows "(x + 1) div k = x div k + (if (x + 1) mod k = 0 then 1 else 0)"
proof -
  define q where "q = x div k"
  define r where "r = x mod k"
  have x: "x = k * q + r" by (simp add: q_def r_def)
  have r: "0 \<le> r" "r < k" using assms by (simp_all add: r_def)
  show ?thesis
  proof (cases "r = k - 1")
    case True
    then have eq: "x + 1 = k * (q + 1) + 0" using x by (simp add: distrib_left)
    have "(x + 1) div k = q + 1" using eq assms by (intro int_div_pos_eq[where r = 0]) simp_all
    moreover have "(x + 1) mod k = 0" using eq assms by (intro int_mod_pos_eq[where q = "q + 1"]) simp_all
    ultimately show ?thesis by (simp add: q_def)
  next
    case False
    with r have lt: "r + 1 < k" by simp
    have eq: "x + 1 = k * q + (r + 1)" using x by simp
    have "(x + 1) div k = q" using eq lt r by (intro int_div_pos_eq[where r = "r + 1"]) simp_all
    moreover have "(x + 1) mod k = r + 1" using eq lt r by (intro int_mod_pos_eq[where q = q]) simp_all
    ultimately show ?thesis using r by (simp add: q_def)
  qed
qed

lemma mod_4_of_1969: "((y::int) - 1969 + 1) mod 4 = y mod 4"
proof -
  have "y - 1969 + 1 = y + 4 * (- 492)" by simp
  then show ?thesis by (simp only: mod_mult_self2)
qed

lemma mod_100_of_1901: "((y::int) - 1901 + 1) mod 100 = y mod 100"
proof -
  have "y - 1901 + 1 = y + 100 * (- 19)" by simp
  then show ?thesis by (simp only: mod_mult_self2)
qed

lemma mod_400_of_1601: "((y::int) - 1601 + 1) mod 400 = y mod 400"
proof -
  have "y - 1601 + 1 = y + 400 * (- 4)" by simp
  then show ?thesis by (simp only: mod_mult_self2)
qed

lemma mod_400_100: "(y::int) mod 400 = 0 \<Longrightarrow> y mod 100 = 0"
proof -
  assume a: "y mod 400 = 0"
  have "y mod 400 mod 100 = y mod 100" by (rule mod_mod_cancel) simp
  with a show ?thesis by simp
qed

lemma mod_100_4: "(y::int) mod 100 = 0 \<Longrightarrow> y mod 4 = 0"
proof -
  assume a: "y mod 100 = 0"
  have "y mod 100 mod 4 = y mod 4" by (rule mod_mod_cancel) simp
  with a show ?thesis by simp
qed


text \<open>A year on, the 1st of January is as many days further as the year has.\<close>

lemma dayFromYear_next: "dayFromYear (y + 1) = dayFromYear y + daysInYear y"
proof -
  define A where "A = (y - 1969) div 4"
  define B where "B = (y - 1901) div 100"
  define C where "C = (y - 1601) div 400"
  define p4 where "p4 = (y mod 4 = 0)"
  define p100 where "p100 = (y mod 100 = 0)"
  define p400 where "p400 = (y mod 400 = 0)"
  have a: "(y + 1 - 1969) div 4 = A + (if p4 then 1 else 0)"
    using div_next[of 4 "y - 1969"] unfolding mod_4_of_1969 A_def p4_def by (simp add: algebra_simps)
  have b: "(y + 1 - 1901) div 100 = B + (if p100 then 1 else 0)"
    using div_next[of 100 "y - 1901"] unfolding mod_100_of_1901 B_def p100_def by (simp add: algebra_simps)
  have c: "(y + 1 - 1601) div 400 = C + (if p400 then 1 else 0)"
    using div_next[of 400 "y - 1601"] unfolding mod_400_of_1601 C_def p400_def by (simp add: algebra_simps)
  have d: "p400 \<longrightarrow> p100" "p100 \<longrightarrow> p4"
    using mod_400_100[of y] mod_100_4[of y] by (simp_all add: p4_def p100_def p400_def)
  have next_day: "dayFromYear (y + 1) = 365 * (y + 1 - 1970) + (A + (if p4 then 1 else 0)) -
      (B + (if p100 then 1 else 0)) + (C + (if p400 then 1 else 0))"
    unfolding dayFromYear_def a b c ..
  have this_day: "dayFromYear y = 365 * (y - 1970) + A - B + C"
    unfolding dayFromYear_def A_def B_def C_def ..
  have len: "daysInYear y = (if p4 \<and> (\<not> p100 \<or> p400) then 366 else 365)"
    unfolding daysInYear_def p4_def p100_def p400_def ..
  show ?thesis
    unfolding next_day this_day len using d by (cases p4; cases p100; cases p400) simp_all
qed

lemma daysInYear_bounds: "365 \<le> daysInYear y" "daysInYear y \<le> 366"
  by (simp_all add: daysInYear_def)

lemma yearAndDay_spec:
  "yearAndDay y0 day0 = (y, r) \<Longrightarrow>
   dayFromYear y + r = dayFromYear y0 + day0 \<and> 0 \<le> r \<and> r < daysInYear y"
proof (induction y0 day0 rule: yearAndDay.induct)
  case (1 y0 day0)
  show ?case
  proof (cases "day0 < 0")
    case True
    with 1 have "yearAndDay (y0 - 1) (day0 + daysInYear (y0 - 1)) = (y, r)"
      by (subst (asm) (2) yearAndDay.simps) simp
    from "1.IH"(1)[OF True this] dayFromYear_next[of "y0 - 1"] show ?thesis by simp
  next
    case False
    show ?thesis
    proof (cases "daysInYear y0 \<le> day0")
      case True
      with False 1 have "yearAndDay (y0 + 1) (day0 - daysInYear y0) = (y, r)"
        by (subst (asm) (2) yearAndDay.simps) simp
      from "1.IH"(2)[OF False True this] dayFromYear_next[of y0] show ?thesis by simp
    next
      case inYear: False
      with False 1 have "y = y0 \<and> r = day0"
        by (subst (asm) (2) yearAndDay.simps) simp
      with False inYear show ?thesis by simp
    qed
  qed
qed


lemma leap_by_days: "(dayFromYear (y + 1) - dayFromYear y = 366) = (daysInYear y = 366)"
  by (simp add: dayFromYear_next)

lemma monthStart_first: "monthStart y 1 = 0"
  by (simp add: monthStart_def)

lemma monthStart_end: "monthStart y 13 = daysInYear y"
  by (simp add: monthStart_def leap_by_days daysInYear_def)

lemma monthStart_next:
  assumes "1 \<le> m" and "m \<le> 12"
  shows "monthStart y (m + 1) = monthStart y m + daysInMonth y m"
proof -
  from assms have "m \<in> {1, 2, 3, 4, 5, 6, 7, 8, 9, 10, 11, 12}"
    by (simp only: insert_iff empty_iff) presburger
  then show ?thesis
    by (elim insertE emptyE)
      (simp_all add: monthStart_def leap_by_days daysInMonth_def daysInYear_def)
qed

lemma monthAndDate_spec:
  "monthAndDate y m0 r0 = (m, d) \<Longrightarrow> 1 \<le> m0 \<Longrightarrow> m0 \<le> 12 \<Longrightarrow> 0 \<le> r0 \<Longrightarrow>
   monthStart y m0 + r0 < monthStart y 13 \<Longrightarrow>
   m0 \<le> m \<and> m \<le> 12 \<and> 1 \<le> d \<and> monthStart y m + d \<le> monthStart y (m + 1) \<and>
   monthStart y m + d - 1 = monthStart y m0 + r0"
proof (induction y m0 r0 rule: monthAndDate.induct)
  case (1 y m0 r0)
  note step = monthStart_next[OF "1.prems"(2,3), of y]
  show ?case
  proof (cases "m0 < 12 \<and> daysInMonth y m0 \<le> r0")
    case True
    with "1.prems"(1) have rec: "monthAndDate y (m0 + 1) (r0 - daysInMonth y m0) = (m, d)"
      by (subst (asm) monthAndDate.simps) simp
    have "m0 + 1 \<le> m \<and> m \<le> 12 \<and> 1 \<le> d \<and> monthStart y m + d \<le> monthStart y (m + 1) \<and>
        monthStart y m + d - 1 = monthStart y (m0 + 1) + (r0 - daysInMonth y m0)"
      using True "1.prems"(2-5) step by (intro "1.IH"[OF True rec]) simp_all
    then show ?thesis using step by simp
  next
    case False
    with "1.prems"(1) have here: "m = m0" "d = r0 + 1"
      by (subst (asm) monthAndDate.simps, simp)+
    have "monthStart y m0 + r0 + 1 \<le> monthStart y (m0 + 1)"
    proof (cases "m0 < 12")
      case True
      with False have "r0 < daysInMonth y m0" by simp
      then show ?thesis using step by simp
    next
      case False
      with "1.prems"(3) have "m0 = 12" by simp
      then show ?thesis using "1.prems"(5) by simp
    qed
    then show ?thesis using here "1.prems"(2-4) by simp
  qed
qed

lemma dayFromYear_epoch: "dayFromYear 1970 = 0"
  by (simp add: dayFromYear_def)

text \<open>
  Stepping over whole years and months arrives at the calendar date of the day, for every
  day before or after 1970.
\<close>

lemma civilFromDays_civilDate:
  assumes "civilFromDays day = (y, m, d)"
  shows "civilDate day y m d"
proof -
  obtain y' r where yd: "yearAndDay 1970 day = (y', r)" by (cases "yearAndDay 1970 day")
  from assms have "(y', monthAndDate y' 1 r) = (y, m, d)"
    unfolding civilFromDays_def yd civilOfYear.simps .
  then have y: "y' = y" and md: "monthAndDate y 1 r = (m, d)"
    by auto
  from yearAndDay_spec[OF yd] y have r: "dayFromYear y + r = day" "0 \<le> r" "r < daysInYear y"
    by (simp_all add: dayFromYear_epoch)
  from r(3) have "monthStart y 1 + r < monthStart y 13"
    by (simp add: monthStart_first monthStart_end)
  from monthAndDate_spec[OF md _ _ r(2) this]
  have "1 \<le> m \<and> m \<le> 12 \<and> 1 \<le> d \<and> monthStart y m + d \<le> monthStart y (m + 1) \<and>
      monthStart y m + d - 1 = r"
    by (simp add: monthStart_first)
  with r(1) show ?thesis by (simp add: civilDate_def)
qed

lemma dayFromYear_mono: "a \<le> b \<Longrightarrow> dayFromYear a \<le> dayFromYear b"
proof (induction b rule: int_ge_induct)
  case base
  show ?case by simp
next
  case (step b)
  from step.IH dayFromYear_next[of b] daysInYear_bounds(1)[of b] show ?case by simp
qed

lemma year_of_day:
  assumes "civilDate day y m d"
  shows "dayFromYear y \<le> day" and "day < dayFromYear (y + 1)"
proof -
  from assms have m: "1 \<le> m" "m \<le> 12" and d: "1 \<le> d"
    and before: "monthStart y m + d \<le> monthStart y (m + 1)"
    and day: "dayFromYear y + monthStart y m + d - 1 = day"
    by (simp_all add: civilDate_def)
  have up: "monthStart y a \<le> monthStart y b" if "1 \<le> a" "a \<le> b" "b \<le> 13" for a b
    using that(2,1,3)
  proof (induction b rule: int_ge_induct)
    case base
    show ?case by simp
  next
    case (step b)
    then have "monthStart y (b + 1) = monthStart y b + daysInMonth y b"
      by (intro monthStart_next) simp_all
    moreover have "0 \<le> daysInMonth y b" by (simp add: daysInMonth_def daysInYear_def)
    ultimately show ?case using step by simp
  qed
  from up[of 1 m] m have "0 \<le> monthStart y m" by (simp add: monthStart_first)
  with d day show "dayFromYear y \<le> day" by simp
  from up[of "m + 1" 13] m have "monthStart y (m + 1) \<le> daysInYear y" by (simp add: monthStart_end)
  with before day show "day < dayFromYear (y + 1)" by (simp add: dayFromYear_next)
qed

text \<open>From 1000-01-01 to 9999-12-31 the year has four digits.\<close>

lemma four_digit_year:
  assumes "civilDate day y m d" and "- 354285 \<le> day" and "day \<le> 2932896"
  shows "1000 \<le> y \<and> y \<le> 9999"
proof -
  note yr = year_of_day[OF assms(1)]
  have lo: "dayFromYear 1000 = - 354285" and hi: "dayFromYear 10000 = 2932897"
    by (simp_all add: dayFromYear_def)
  have "1000 \<le> y"
  proof (rule ccontr)
    assume "\<not> 1000 \<le> y"
    then have "y + 1 \<le> 1000" by simp
    from dayFromYear_mono[OF this] yr(2) assms(2) lo show False by simp
  qed
  moreover have "y \<le> 9999"
  proof (rule ccontr)
    assume "\<not> y \<le> 9999"
    then have "10000 \<le> y" by simp
    from dayFromYear_mono[OF this] yr(1) assms(3) hi show False by simp
  qed
  ultimately show ?thesis ..
qed

subsection \<open>Dates as text\<close>

lemma natDigits_step: "10 \<le> n \<Longrightarrow> natDigits n = natDigits (n div 10) @ [''0123456789'' ! (n mod 10)]"
  by (subst natDigits.simps) simp

lemma natDigits_small: "n < 10 \<Longrightarrow> natDigits n = [''0123456789'' ! n]"
  by (subst natDigits.simps) simp

lemma natDigits_trailing:
  "0 < a \<Longrightarrow>
   natDigits (a div 10 ^ trailingZeros a) @ replicate (trailingZeros a) (CHR ''0'') = natDigits a"
proof (induction a rule: trailingZeros.induct)
  case (1 n)
  show ?case
  proof (cases "n = 0 \<or> n mod 10 \<noteq> 0")
    case True
    then have "trailingZeros n = 0" by (subst trailingZeros.simps) simp
    then show ?thesis by simp
  next
    case False
    then have tz: "trailingZeros n = Suc (trailingZeros (n div 10))"
      by (subst trailingZeros.simps) simp
    from False "1.prems" have pos: "0 < n div 10" and big: "10 \<le> n" by presburger+
    have d: "n div 10 ^ Suc (trailingZeros (n div 10)) = n div 10 div 10 ^ trailingZeros (n div 10)"
      by (simp add: div_mult2_eq)
    have last: "[''0123456789'' ! (n mod 10)] = [CHR ''0'']" using False by simp
    have "natDigits n = natDigits (n div 10) @ [CHR ''0'']"
      using natDigits_step[OF big] last by simp
    also have "\<dots> = (natDigits (n div 10 div 10 ^ trailingZeros (n div 10)) @
        replicate (trailingZeros (n div 10)) (CHR ''0'')) @ [CHR ''0'']"
      using "1.IH"[OF False pos] by simp
    also have "\<dots> = natDigits (n div 10 ^ trailingZeros n) @ replicate (trailingZeros n) (CHR ''0'')"
      unfolding tz d by (simp add: replicate_append_same)
    finally show ?thesis by simp
  qed
qed

lemma length_natDigits:
  "10 ^ k \<le> n \<Longrightarrow> n < 10 ^ Suc k \<Longrightarrow> length (natDigits n) = Suc k"
proof (induction k arbitrary: n)
  case 0
  then show ?case by (simp add: natDigits_small)
next
  case (Suc k)
  from Suc.prems have big: "10 \<le> n"
    by (metis One_nat_def le_trans one_le_numeral one_le_power power_Suc mult.right_neutral mult_le_mono2 power_one_right power_increasing)
  from Suc.prems have "10 ^ k \<le> n div 10" "n div 10 < 10 ^ Suc k"
    by (simp_all add: less_mult_imp_div_less le_div_geq div_le_mono mult.commute div_less_iff_less_mult)
  from Suc.IH[OF this] show ?case by (simp add: natDigits_step[OF big])
qed


text \<open>A whole number below 1e+21 prints as its digits.\<close>

lemma decToString_nat:
  assumes "0 < n" and "length (natDigits n) \<le> 21"
  shows "decToString (int n) 0 = natDigits n"
proof -
  define z where "z = trailingZeros n"
  define s where "s = natDigits (n div 10 ^ z)"
  from natDigits_trailing[OF assms(1)] have whole: "s @ replicate z (CHR ''0'') = natDigits n"
    by (simp add: s_def z_def)
  then have "length s + z = length (natDigits n)" by (metis length_append length_replicate)
  with assms(2) have len: "int (length s) + int z \<le> 21" by simp
  have "decDigits (int n) = s" by (simp add: decDigits_def s_def z_def)
  moreover have "pointPosition (int n) 0 = int (length s) + int z"
    by (simp add: pointPosition_def decDigits_def s_def z_def)
  ultimately have "decToString (int n) 0 = s @ replicate z (CHR ''0'')"
    using assms(1) len by (simp add: decToString_def placePoint_def)
  with whole show ?thesis by simp
qed

lemma readDigits_natDigits: "readDigits (natDigits n) = Some n"
  by (simp add: readDigits_def natDigits_nonempty readDigitsFrom_natDigits)

lemma two_digits:
  assumes "0 < n" and "n < 100"
  shows "length (padStart 2 (CHR ''0'') (decToString (int n) 0)) = 2"
    and "readDigits (padStart 2 (CHR ''0'') (decToString (int n) 0)) = Some n"
proof -
  have "length (padStart 2 (CHR ''0'') (decToString (int n) 0)) = 2 \<and>
      readDigits (padStart 2 (CHR ''0'') (decToString (int n) 0)) = Some n"
  proof (cases "n < 10")
    case True
    then have one: "natDigits n = [''0123456789'' ! n]" by (rule natDigits_small)
    then have str: "decToString (int n) 0 = [''0123456789'' ! n]"
      using decToString_nat[OF assms(1)] by simp
    have "padStart 2 (CHR ''0'') (decToString (int n) 0) = [CHR ''0'', ''0123456789'' ! n]"
      by (simp add: str padStart_def numeral_2_eq_2)
    moreover have "readDigits [CHR ''0'', ''0123456789'' ! n] = Some n"
      using digitValue_digit[OF True] by (simp add: readDigits_def digitValue_def)
    ultimately show ?thesis by simp
  next
    case False
    with assms(2) have "10 ^ 1 \<le> n" "n < 10 ^ Suc 1" by simp_all
    from length_natDigits[OF this] have len: "length (natDigits n) = 2" by simp
    then have str: "decToString (int n) 0 = natDigits n"
      using decToString_nat[OF assms(1)] by simp
    show ?thesis by (simp add: str padStart_def len readDigits_natDigits)
  qed
  then show "length (padStart 2 (CHR ''0'') (decToString (int n) 0)) = 2"
    and "readDigits (padStart 2 (CHR ''0'') (decToString (int n) 0)) = Some n"
    by simp_all
qed

lemma four_digits:
  assumes "1000 \<le> n" and "n \<le> 9999"
  shows "length (decToString (int n) 0) = 4" and "readDigits (decToString (int n) 0) = Some n"
proof -
  from assms have "10 ^ 3 \<le> n" "n < 10 ^ Suc 3" by simp_all
  from length_natDigits[OF this] have len: "length (natDigits n) = 4" by simp
  from assms(1) have "0 < n" by simp
  from decToString_nat[OF this] len have str: "decToString (int n) 0 = natDigits n" by simp
  show "length (decToString (int n) 0) = 4" by (simp add: str len)
  show "readDigits (decToString (int n) 0) = Some n" by (simp add: str readDigits_natDigits)
qed

lemma formattedDate_of_day:
  assumes "civilFromDays (localDay env t) = (y, m, d)"
  shows "formattedDate env (Some t) =
     decToString y 0 @ ''-'' @ padStart 2 (CHR ''0'') (decToString m 0) @ ''-'' @
     padStart 2 (CHR ''0'') (decToString d 0)"
  using assms by (simp add: formattedDate_def getFullYear_def getMonth_def getDate_def)

lemma day_of_month:
  assumes "civilDate day y m d"
  shows "d \<le> 31"
proof -
  from assms have m: "1 \<le> m" "m \<le> 12" and before: "monthStart y m + d \<le> monthStart y (m + 1)"
    by (simp_all add: civilDate_def)
  from monthStart_next[OF m, of y] before have "d \<le> daysInMonth y m" by simp
  moreover have "daysInMonth y m \<le> 31" by (simp add: daysInMonth_def daysInYear_def)
  ultimately show ?thesis by simp
qed

lemma dateText_parts:
  assumes "length Y = 4" and "length M = 2" and "length D = 2"
    and "readDigits Y = Some y" and "readDigits M = Some m" and "readDigits D = Some d"
    and "civilDate day (int y) (int m) (int d)"
  shows "dateText day (Y @ ''-'' @ M @ ''-'' @ D)"
proof -
  let ?s = "Y @ ''-'' @ M @ ''-'' @ D"
  have "length ?s = 10" using assms(1-3) by simp
  moreover have "?s ! 4 = CHR ''-''" using assms(1) by (simp add: nth_append)
  moreover have "?s ! 7 = CHR ''-''" using assms(1,2) by (simp add: nth_append nth_Cons')
  moreover have "take 4 ?s = Y" using assms(1) by simp
  moreover have "take 2 (drop 5 ?s) = M" using assms(1,2) by simp
  moreover have "drop 8 ?s = D" using assms(1,2) by simp
  ultimately show ?thesis unfolding dateText_def using assms(4-7) by simp
qed

text \<open>
  The date of line 218 is a text of the form YYYY-MM-DD that reads as the calendar date
  of the day local time is in.
\<close>

lemma formattedDate_dateText:
  assumes "- 354285 \<le> localDay env t" and "localDay env t \<le> 2932896"
  shows "dateText (localDay env t) (formattedDate env (Some t))"
proof -
  obtain y m d where civil: "civilFromDays (localDay env t) = (y, m, d)"
    by (cases "civilFromDays (localDay env t)")
  from civilFromDays_civilDate[OF civil] have date: "civilDate (localDay env t) y m d" .
  from four_digit_year[OF date assms] have y: "1000 \<le> y" "y \<le> 9999" by simp_all
  from date have m: "1 \<le> m" "m \<le> 12" and d: "1 \<le> d" by (simp_all add: civilDate_def)
  note d31 = day_of_month[OF date]
  have ynat: "1000 \<le> nat y" "nat y \<le> 9999" "int (nat y) = y" using y by simp_all
  have mnat: "0 < nat m" "nat m < 100" "int (nat m) = m" using m by simp_all
  have dnat: "0 < nat d" "nat d < 100" "int (nat d) = d" using d d31 by simp_all
  note Y = four_digits[OF ynat(1,2), unfolded ynat(3)]
  note M = two_digits[OF mnat(1,2), unfolded mnat(3)]
  note D = two_digits[OF dnat(1,2), unfolded dnat(3)]
  have "civilDate (localDay env t) (int (nat y)) (int (nat m)) (int (nat d))"
    using date by (simp only: ynat(3) mnat(3) dnat(3))
  from dateText_parts[OF Y(1) M(1) D(1) Y(2) M(2) D(2) this]
  show ?thesis by (simp only: formattedDate_of_day[OF civil])
qed

subsection \<open>One line per candle\<close>

lemma csvRows_candle:
  \<open>csvRows env (candle (t, opn, high, low, cls, volume) # data) csvContent =
     csvRows env data
       (csvContent @ ''"'' @ formattedDate env (timeClip t) @ ''",'' @
        numberToString opn @ '','' @ numberToString high @ '','' @ numberToString low @ '','' @
        numberToString cls @ '','' @ numberToString volume @ ''\<newline>'')\<close>
  by (simp add: element_def)

text \<open>
  The notation of a number does not depend on how its decimal fraction is written:
  \<open>m / 10 ^ e\<close> and \<open>10 m / 10 ^ (e + 1)\<close> print alike.
\<close>

lemma trailingZeros_ten: "0 < a \<Longrightarrow> trailingZeros (a * 10) = Suc (trailingZeros a)"
  by (subst trailingZeros.simps) simp

lemma decToString_scale: "decToString (m * 10) (Suc e) = decToString m e"
proof (cases "m = 0")
  case True
  then show ?thesis by (simp add: decToString_def)
next
  case False
  define a where "a = nat \<bar>m\<bar>"
  from False have a: "0 < a" by (simp add: a_def)
  have abs: "nat \<bar>m * 10\<bar> = a * 10" by (simp add: a_def abs_mult nat_mult_distrib)
  have "a * 10 div 10 ^ Suc (trailingZeros a) = a div 10 ^ trailingZeros a" by simp
  then have digits: "decDigits (m * 10) = decDigits m"
    by (simp only: decDigits_def abs trailingZeros_ten[OF a] a_def[symmetric])
  have point: "pointPosition (m * 10) (Suc e) = pointPosition m e"
    by (simp add: pointPosition_def digits abs trailingZeros_ten[OF a] a_def[symmetric])
  have "(m * 10 < 0) = (m < 0)" by (simp add: mult_less_0_iff)
  then show ?thesis using False by (simp add: decToString_def digits point)
qed

lemma printed_fields:
  "numberToString (Dec 1005 1) = ''100.5''"
  "numberToString (Dec 110 0) = ''110''"
  "numberToString (Dec 95 0) = ''95''"
  "numberToString (Dec 10525 2) = ''105.25''"
  "numberToString (Dec 1234 1) = ''123.4''"
  by (simp_all add: decToString_def decDigits_def pointPosition_def placePoint_def
      natDigits.simps trailingZeros.simps)

lemma zeros_written:
  "replicate 4 c = [c, c, c, c]"
  "replicate 5 c = [c, c, c, c, c]"
  by (simp_all add: eval_nat_numeral)

lemma printed_notations:
  "numberToString (Dec 0 3) = ''0''"
  "numberToString (Dec (- 15) 1) = ''-1.5''"
  "numberToString (Dec 1 6) = ''0.000001''"
  "numberToString (Dec 1 7) = ''1e-7''"
  "numberToString (Dec 12345 25) = ''1.2345e-21''"
  "numberToString (Dec 123456789012345680000 0) = ''123456789012345680000''"
  "numberToString (Dec 1000000000000000000000 0) = ''1e+21''"
  by (simp_all add: decToString_def decDigits_def pointPosition_def placePoint_def
      exponentForm_def natDigits.simps trailingZeros.simps zeros_written)

lemma readNumber_examples:
  "readNumber ''100.5'' = Some (1005, - 1)"
  "readNumber ''-1.5e-7'' = Some (- 15, - 8)"
  "readNumber ''1e+21'' = Some (1, 21)"
  "readNumber ''0.001'' = Some (1, - 3)"
  "readNumber ''110'' = Some (110, 0)"
  "readNumber ''12.'' = None"
  "readNumber ''.5'' = None"
  "readNumber ''1e5'' = None"
  "readNumber ''NaN'' = None"
  "readNumber [] = None"
  by (simp_all add: readNumber_def readUnsigned_def readDigits_def readFraction_def
      readExponent_def mantissaOf_def exponentOf_def wholeOf_def fractionOf_def digitValue_def)

text \<open>An invalid date, and a time value with a fraction of a millisecond.\<close>

lemma date_examples:
  "formattedDate env None = ''NaN-NaN-NaN''"
  "newDate env (JNumber (Dec 17000000000005 1)) = Some 1700000000000"
  "newDate env (JNumber (Dec (- 15) 1)) = Some (- 1)"
  "newDate env (JNumber (Dec 8640000000000001 0)) = None"
  by (simp_all add: formattedDate_def getFullYear_def getMonth_def getDate_def padStart_def)

lemma days_of_november_2023:
  "civilFromDays 19675 = (2023, 11, 14)"
  "civilFromDays 19676 = (2023, 11, 15)"
  by (simp_all add: civilFromDays_def yearAndDay.simps monthAndDate.simps daysInYear_def
      daysInMonth_def)

lemma days_of_the_calendar:
  "civilFromDays 0 = (1970, 1, 1)"
  "civilFromDays (- 1) = (1969, 12, 31)"
  "civilFromDays 11016 = (2000, 2, 29)"
  "civilFromDays 11017 = (2000, 3, 1)"
  "civilFromDays (- 25509) = (1900, 2, 28)"
  "civilFromDays (- 25508) = (1900, 3, 1)"
  by (simp_all add: civilFromDays_def yearAndDay.simps monthAndDate.simps daysInYear_def
      daysInMonth_def)

lemma printed_dates:
  "decToString 2023 0 = ''2023''"
  "decToString 11 0 = ''11''"
  "decToString 14 0 = ''14''"
  "decToString 15 0 = ''15''"
  by (simp_all add: decToString_def decDigits_def pointPosition_def placePoint_def
      natDigits.simps trailingZeros.simps)

text \<open>
  The local date of the instant 1700000000000, which is 22:13:20 UTC on 2023-11-14: the
  14th up to 1 h 46 min 40 s ahead of UTC, the 15th further east.
\<close>

lemma formattedDate_local:
  assumes "- 80000000 \<le> localTZA env 1700000000000"
    and "localTZA env 1700000000000 < 92800000"
  shows "formattedDate env (Some 1700000000000) =
    (if localTZA env 1700000000000 < 6400000 then ''2023-11-14'' else ''2023-11-15'')"
proof -
  define x where "x = 1700000000000 + localTZA env 1700000000000"
  have day: "localDay env 1700000000000 = x div 86400000" by (simp add: localDay_def x_def)
  show ?thesis
  proof (cases "localTZA env 1700000000000 < 6400000")
    case True
    with assms(1) have "x = 86400000 * 19675 + (x - 1699920000000)"
      and "0 \<le> x - 1699920000000" and "x - 1699920000000 < 86400000"
      by (simp_all add: x_def)
    then have "x div 86400000 = 19675" by (rule int_div_pos_eq)
    then have "civilFromDays (localDay env 1700000000000) = (2023, 11, 14)"
      by (simp only: day days_of_november_2023)
    from formattedDate_of_day[OF this] True show ?thesis
      by (simp add: printed_dates padStart_def)
  next
    case False
    with assms(2) have "x = 86400000 * 19676 + (x - 1700006400000)"
      and "0 \<le> x - 1700006400000" and "x - 1700006400000 < 86400000"
      by (simp_all add: x_def)
    then have "x div 86400000 = 19676" by (rule int_div_pos_eq)
    then have "civilFromDays (localDay env 1700000000000) = (2023, 11, 15)"
      by (simp only: day days_of_november_2023)
    from formattedDate_of_day[OF this] False show ?thesis
      by (simp add: printed_dates padStart_def)
  qed
qed

lemma localDay_range:
  assumes "- 30610224000000 \<le> t + localTZA env t" and "t + localTZA env t < 253402300800000"
  shows "- 354285 \<le> localDay env t" and "localDay env t \<le> 2932896"
proof -
  define x where "x = t + localTZA env t"
  have x: "x = 86400000 * (x div 86400000) + x mod 86400000" by simp
  have r: "0 \<le> x mod 86400000" "x mod 86400000 < 86400000" by simp_all
  from assms have b: "- 30610224000000 \<le> x" "x < 253402300800000" by (simp_all add: x_def)
  from x r b have "- 354285 \<le> x div 86400000" and "x div 86400000 \<le> 2932896" by linarith+
  then show "- 354285 \<le> localDay env t" and "localDay env t \<le> 2932896"
    by (simp_all add: localDay_def x_def)
qed

text \<open>
  C8. For the single candle \<^verbatim>\<open>[1700000000000, 100.5, 110, 95, 105.25, 123.4]\<close> the file is the
  header and one line, the quoted local date of that instant followed by
  \<^verbatim>\<open>,100.5,110,95,105.25,123.4\<close> and a newline; the instant is 22:13:20 UTC on 2023-11-14, so
  the date is 2023-11-14 where local time is less than 1 h 46 min 40 s ahead of UTC and
  2023-11-15 further east, and this content is what \<open>writeDataToCSV\<close> hands to
  \<^verbatim>\<open>writeFileSync\<close>.

  In general, a candle of six numbers whose timestamp is a whole number of milliseconds,
  a valid time value, with a local year from 1000 to 9999, adds one line to the content,
  whatever comes before and after it: a quote, a text of the form YYYY-MM-DD that reads
  as the calendar date of the day local time is in at that instant, a quote, and five
  fields, each after a comma, that read as the numbers of the candle from \<^verbatim>\<open>open\<close> to
  \<^verbatim>\<open>volume\<close>, and a newline. The notation of a number does not depend on how its decimal
  fraction is written; it is plain from 0.000001 up to, not including, 1e+21, and with an
  exponent beyond.
\<close>

theorem csv_body_line:
  \<open>(- 80000000 \<le> localTZA env 1700000000000 \<and> localTZA env 1700000000000 < 92800000 \<longrightarrow>
      csvRows env
        [candle (Dec 1700000000000 0, Dec 1005 1, Dec 110 0, Dec 95 0, Dec 10525 2, Dec 1234 1)]
        csvHeader =
       Inr (''timestamp,open,high,low,close,volume\<newline>"'' @
            (if localTZA env 1700000000000 < 6400000 then ''2023-11-14'' else ''2023-11-15'') @
            ''",100.5,110,95,105.25,123.4\<newline>'')
      \<and> writeDataToCSV fs env f
        [candle (Dec 1700000000000 0, Dec 1005 1, Dec 110 0, Dec 95 0, Dec 10525 2, Dec 1234 1)]
        exchangeId symbol filePath =
       (case ensureDirectory fs (dirname fs (pathOf filePath exchangeId symbol)) f of
          (Some e, f1) \<Rightarrow> (Some e, f1)
        | (None, f1) \<Rightarrow>
            writeFileSync fs f1 (pathOf filePath exchangeId symbol)
              (''timestamp,open,high,low,close,volume\<newline>"'' @
               (if localTZA env 1700000000000 < 6400000 then ''2023-11-14'' else ''2023-11-15'') @
               ''",100.5,110,95,105.25,123.4\<newline>'')))
   \<and> (\<bar>ms\<bar> \<le> 8640000000000000 \<and> - 30610224000000 \<le> ms + localTZA env ms \<and>
       ms + localTZA env ms < 253402300800000 \<longrightarrow>
       (\<exists>date opn high low cls volume.
          (\<forall>data csvContent.
             csvRows env
               (candle (Dec ms 0, Dec mo eo, Dec mh eh, Dec ml el, Dec mc ec, Dec mv ev) # data)
               csvContent =
             csvRows env data
               (csvContent @ ''"'' @ date @ ''",'' @ opn @ '','' @ high @ '','' @ low @ '','' @
                cls @ '','' @ volume @ ''\<newline>''))
          \<and> dateText ((ms + localTZA env ms) div 86400000) date
          \<and> readsAs opn (Dec mo eo) \<and> readsAs high (Dec mh eh) \<and> readsAs low (Dec ml el)
          \<and> readsAs cls (Dec mc ec) \<and> readsAs volume (Dec mv ev)))
   \<and> numberToString (Dec (m * 10) (Suc e)) = numberToString (Dec m e)
   \<and> numberToString (Dec 1 6) = ''0.000001''
   \<and> numberToString (Dec 1 7) = ''1e-7''
   \<and> numberToString (Dec 123456789012345680000 0) = ''123456789012345680000''
   \<and> numberToString (Dec 1000000000000000000000 0) = ''1e+21''\<close>
proof (intro conjI impI)
  let ?c = "candle (Dec 1700000000000 0, Dec 1005 1, Dec 110 0, Dec 95 0, Dec 10525 2, Dec 1234 1)"
  let ?content = \<open>''timestamp,open,high,low,close,volume\<newline>"'' @
      (if localTZA env 1700000000000 < 6400000 then ''2023-11-14'' else ''2023-11-15'') @
      ''",100.5,110,95,105.25,123.4\<newline>''\<close>
  assume near: "- 80000000 \<le> localTZA env 1700000000000 \<and> localTZA env 1700000000000 < 92800000"
  then have date: "formattedDate env (Some 1700000000000) =
      (if localTZA env 1700000000000 < 6400000 then ''2023-11-14'' else ''2023-11-15'')"
    by (intro formattedDate_local) simp_all
  have clip: "timeClip (Dec 1700000000000 0) = Some 1700000000000" by simp
  have \<open>csvRows env (?c # []) csvHeader =
      csvRows env [] (csvHeader @ ''"'' @ formattedDate env (timeClip (Dec 1700000000000 0)) @ ''",'' @
        numberToString (Dec 1005 1) @ '','' @ numberToString (Dec 110 0) @ '','' @
        numberToString (Dec 95 0) @ '','' @ numberToString (Dec 10525 2) @ '','' @
        numberToString (Dec 1234 1) @ ''\<newline>'')\<close>
    by (rule csvRows_candle)
  then show rows: "csvRows env [?c] csvHeader = Inr ?content"
    unfolding clip date printed_fields by (simp add: csvHeader_def)
  show "writeDataToCSV fs env f [?c] exchangeId symbol filePath =
       (case ensureDirectory fs (dirname fs (pathOf filePath exchangeId symbol)) f of
          (Some e, f1) \<Rightarrow> (Some e, f1)
        | (None, f1) \<Rightarrow> writeFileSync fs f1 (pathOf filePath exchangeId symbol) ?content)"
    unfolding writeDataToCSV_def Let_def rows by (simp split: prod.splits option.splits)
next
  assume range: "\<bar>ms\<bar> \<le> 8640000000000000 \<and> - 30610224000000 \<le> ms + localTZA env ms \<and>
       ms + localTZA env ms < 253402300800000"
  then have clip: "timeClip (Dec ms 0) = Some ms" by (simp add: mult_sgn_abs)
  from range have "- 354285 \<le> localDay env ms" and "localDay env ms \<le> 2932896"
    by (simp_all add: localDay_range)
  then have "dateText (localDay env ms) (formattedDate env (Some ms))"
    by (rule formattedDate_dateText)
  then have date: "dateText ((ms + localTZA env ms) div 86400000) (formattedDate env (Some ms))"
    by (simp only: localDay_def)
  have fields: "readsAs (numberToString (Dec mo eo)) (Dec mo eo)"
    "readsAs (numberToString (Dec mh eh)) (Dec mh eh)"
    "readsAs (numberToString (Dec ml el)) (Dec ml el)"
    "readsAs (numberToString (Dec mc ec)) (Dec mc ec)"
    "readsAs (numberToString (Dec mv ev)) (Dec mv ev)"
    by (simp_all add: decToString_reads)
  have \<open>\<forall>data csvContent.
      csvRows env
        (candle (Dec ms 0, Dec mo eo, Dec mh eh, Dec ml el, Dec mc ec, Dec mv ev) # data)
        csvContent =
      csvRows env data
        (csvContent @ ''"'' @ formattedDate env (Some ms) @ ''",'' @
         numberToString (Dec mo eo) @ '','' @ numberToString (Dec mh eh) @ '','' @
         numberToString (Dec ml el) @ '','' @ numberToString (Dec mc ec) @ '','' @
         numberToString (Dec mv ev) @ ''\<newline>'')\<close>
    by (intro allI) (simp only: csvRows_candle clip)
  with date fields
  show \<open>\<exists>date opn high low cls volume.
      (\<forall>data csvContent.
         csvRows env
           (candle (Dec ms 0, Dec mo eo, Dec mh eh, Dec ml el, Dec mc ec, Dec mv ev) # data)
           csvContent =
         csvRows env data
           (csvContent @ ''"'' @ date @ ''",'' @ opn @ '','' @ high @ '','' @ low @ '','' @
            cls @ '','' @ volume @ ''\<newline>''))
      \<and> dateText ((ms + localTZA env ms) div 86400000) date
      \<and> readsAs opn (Dec mo eo) \<and> readsAs high (Dec mh eh) \<and> readsAs low (Dec ml el)
      \<and> readsAs cls (Dec mc ec) \<and> readsAs volume (Dec mv ev)\<close>
    by (intro exI conjI)
next
  show "numberToString (Dec (m * 10) (Suc e)) = numberToString (Dec m e)"
    by (simp add: decToString_scale)
qed (simp_all only: printed_notations)

theorem csv_body_line_witness:
  \<open>(- 80000000 \<le> localTZA utcEnv 1700000000000 \<and> localTZA utcEnv 1700000000000 < 92800000)
   \<and> csvRows utcEnv
       [candle (Dec 1700000000000 0, Dec 1005 1, Dec 110 0, Dec 95 0, Dec 10525 2, Dec 1234 1)]
       csvHeader =
      Inr ''timestamp,open,high,low,close,volume\<newline>"2023-11-14",100.5,110,95,105.25,123.4\<newline>''
   \<and> writeDataToCSV memoryFs utcEnv Map.empty
       [candle (Dec 1700000000000 0, Dec 1005 1, Dec 110 0, Dec 95 0, Dec 10525 2, Dec 1234 1)]
       ''okx'' ''ETH/USDT'' None =
      (None, [''./data/okx_ETH-USDT_daily.csv'' \<mapsto>
        ''timestamp,open,high,low,close,volume\<newline>"2023-11-14",100.5,110,95,105.25,123.4\<newline>''])
   \<and> (- 80000000 \<le> localTZA tokyoEnv 1700000000000 \<and> localTZA tokyoEnv 1700000000000 < 92800000)
   \<and> csvRows tokyoEnv
       [candle (Dec 1700000000000 0, Dec 1005 1, Dec 110 0, Dec 95 0, Dec 10525 2, Dec 1234 1)]
       csvHeader =
      Inr ''timestamp,open,high,low,close,volume\<newline>"2023-11-15",100.5,110,95,105.25,123.4\<newline>''
   \<and> (\<bar>1700000000000\<bar> \<le> (8640000000000000::int) \<and>
       - 30610224000000 \<le> 1700000000000 + localTZA tokyoEnv 1700000000000 \<and>
       1700000000000 + localTZA tokyoEnv 1700000000000 < 253402300800000)
   \<and> (\<exists>date opn high low cls volume.
          (\<forall>data csvContent.
             csvRows tokyoEnv
               (candle (Dec 1700000000000 0, Dec 1005 1, Dec 110 0, Dec 95 0, Dec 10525 2, Dec 1234 1) # data)
               csvContent =
             csvRows tokyoEnv data
               (csvContent @ ''"'' @ date @ ''",'' @ opn @ '','' @ high @ '','' @ low @ '','' @
                cls @ '','' @ volume @ ''\<newline>''))
          \<and> dateText ((1700000000000 + localTZA tokyoEnv 1700000000000) div 86400000) date
          \<and> readsAs opn (Dec 1005 1) \<and> readsAs high (Dec 110 0) \<and> readsAs low (Dec 95 0)
          \<and> readsAs cls (Dec 10525 2) \<and> readsAs volume (Dec 1234 1))
   \<and> (1700000000000 + localTZA tokyoEnv 1700000000000) div 86400000 = 19676
   \<and> dateText 19676 ''2023-11-15'' \<and> \<not> dateText 19676 ''2023-11-14''
   \<and> \<not> dateText 19676 ''2023-11-5'' \<and> \<not> dateText 19676 ''2023-15-11''
   \<and> readsAs ''100.5'' (Dec 1005 1) \<and> readsAs ''110'' (Dec 110 0) \<and> readsAs ''95'' (Dec 95 0)
   \<and> readsAs ''105.25'' (Dec 10525 2) \<and> readsAs ''123.4'' (Dec 1234 1)
   \<and> \<not> readsAs ''100.6'' (Dec 1005 1) \<and> \<not> readsAs ''1005'' (Dec 1005 1)
   \<and> \<not> readsAs ''"100.5"'' (Dec 1005 1)\<close>
proof -
  let ?c = "candle (Dec 1700000000000 0, Dec 1005 1, Dec 110 0, Dec 95 0, Dec 10525 2, Dec 1234 1)"
  have utc: "- 80000000 \<le> localTZA utcEnv 1700000000000 \<and> localTZA utcEnv 1700000000000 < 92800000"
    by (simp add: utcEnv_def)
  have tokyo: "- 80000000 \<le> localTZA tokyoEnv 1700000000000 \<and>
      localTZA tokyoEnv 1700000000000 < 92800000"
    by (simp add: tokyoEnv_def)
  have range: "\<bar>1700000000000\<bar> \<le> (8640000000000000::int) \<and>
       - 30610224000000 \<le> 1700000000000 + localTZA tokyoEnv 1700000000000 \<and>
       1700000000000 + localTZA tokyoEnv 1700000000000 < 253402300800000"
    by (simp add: tokyoEnv_def)
  note at_utc = csv_body_line[where env = utcEnv and fs = memoryFs and f = Map.empty
      and exchangeId = "''okx''" and symbol = "''ETH/USDT''" and filePath = None,
      THEN conjunct1, THEN mp, OF utc]
  note at_tokyo = csv_body_line[where env = tokyoEnv, THEN conjunct1, THEN mp, OF tokyo,
      THEN conjunct1]
  note line = csv_body_line[where env = tokyoEnv and ms = 1700000000000 and mo = 1005
      and eo = 1 and mh = 110 and eh = 0 and ml = 95 and el = 0 and mc = 10525 and ec = 2
      and mv = 1234 and ev = 1,
      THEN conjunct2, THEN conjunct1, THEN mp, OF range]
  have rows_utc: \<open>csvRows utcEnv [?c] csvHeader =
      Inr ''timestamp,open,high,low,close,volume\<newline>"2023-11-14",100.5,110,95,105.25,123.4\<newline>''\<close>
    using at_utc[THEN conjunct1] by (simp add: utcEnv_def)
  have file_utc: \<open>writeDataToCSV memoryFs utcEnv Map.empty [?c] ''okx'' ''ETH/USDT'' None =
      (None, [''./data/okx_ETH-USDT_daily.csv'' \<mapsto>
        ''timestamp,open,high,low,close,volume\<newline>"2023-11-14",100.5,110,95,105.25,123.4\<newline>''])\<close>
    using at_utc[THEN conjunct2]
    by (simp add: utcEnv_def memoryFs_def ensureDirectory_def pathOf_def defaultPath_def)
  have rows_tokyo: \<open>csvRows tokyoEnv [?c] csvHeader =
      Inr ''timestamp,open,high,low,close,volume\<newline>"2023-11-15",100.5,110,95,105.25,123.4\<newline>''\<close>
    using at_tokyo by (simp add: tokyoEnv_def)
  have day: "(1700000000000 + localTZA tokyoEnv 1700000000000) div 86400000 = 19676"
    by (simp add: tokyoEnv_def)
  have dates: "dateText 19676 ''2023-11-15''" "\<not> dateText 19676 ''2023-11-14''"
    "\<not> dateText 19676 ''2023-11-5''" "\<not> dateText 19676 ''2023-15-11''"
    by (simp_all add: dateText_def readDigits_def digitValue_def civilDate_def monthStart_def
        dayFromYear_def)
  have reads: "readsAs ''100.5'' (Dec 1005 1)" "readsAs ''110'' (Dec 110 0)"
    "readsAs ''95'' (Dec 95 0)" "readsAs ''105.25'' (Dec 10525 2)"
    "readsAs ''123.4'' (Dec 1234 1)" "\<not> readsAs ''100.6'' (Dec 1005 1)"
    "\<not> readsAs ''1005'' (Dec 1005 1)" \<open>\<not> readsAs ''"100.5"'' (Dec 1005 1)\<close>
    by (simp_all add: readsAs_def readNumber_def readUnsigned_def readDigits_def
        readFraction_def readExponent_def mantissaOf_def exponentOf_def wholeOf_def
        fractionOf_def digitValue_def)
  note bounds = utc[THEN conjunct1] utc[THEN conjunct2] tokyo[THEN conjunct1]
    tokyo[THEN conjunct2] range[THEN conjunct1] range[THEN conjunct2, THEN conjunct1]
    range[THEN conjunct2, THEN conjunct2]
  show ?thesis
    using bounds rows_utc file_utc rows_tokyo line day dates reads
    by (intro conjI) assumption+
qed

text \<open>
  C9, at a symbol with two separators: only the first \<^verbatim>\<open>/\<close> is replaced (and likewise only
  the first backslash), so a \<^verbatim>\<open>/\<close> stays in the file name; for a symbol with one separator
  the path is the one the specification gives.
\<close>

theorem default_path_first_separator_only:
  "defaultPath ''okx'' ''A/B/C'' = ''./data/okx_A-B/C_daily.csv''
   \<and> defaultPath ''okx'' ''ETH/USDT'' = ''./data/okx_ETH-USDT_daily.csv''"
  by (simp add: defaultPath_def)

lemma default_path_single_separator:
  assumes "CHR ''/'' \<notin> set base" and "CHR ''/'' \<notin> set quote"
    and "CHR 0x5C \<notin> set base" and "CHR 0x5C \<notin> set quote"
  shows "defaultPath exchangeId (base @ ''/'' @ quote) =
     ''./data/'' @ exchangeId @ ''_'' @ base @ ''-'' @ quote @ ''_daily.csv''"
proof -
  from assms(1) have "js_replace (base @ ''/'' @ quote) ''/'' ''-'' = base @ ''-'' @ quote"
    using js_replace_first[of "CHR ''/''" base quote "''-''"] by simp
  moreover from assms(3,4) have "js_replace (base @ ''-'' @ quote) [CHR 0x5C] ''-'' = base @ ''-'' @ quote"
    by (intro js_replace_absent) auto
  ultimately show ?thesis by (simp add: defaultPath_def)
qed

text \<open>
  C10. For the empty series the content is the header line alone, ended by one newline, and
  that is what \<open>writeDataToCSV\<close> hands to \<^verbatim>\<open>writeFileSync\<close> once the directory is there: the
  writer itself raises nothing, the only errors being those of the file system.
\<close>

theorem empty_series_header_only:
  "csvRows env [] csvHeader = Inr ''timestamp,open,high,low,close,volume\<newline>''
   \<and> writeDataToCSV fs env f [] exchangeId symbol filePath =
       (case ensureDirectory fs (dirname fs (pathOf filePath exchangeId symbol)) f of
          (Some e, f1) \<Rightarrow> (Some e, f1)
        | (None, f1) \<Rightarrow>
            writeFileSync fs f1 (pathOf filePath exchangeId symbol)
              ''timestamp,open,high,low,close,volume\<newline>'')"
  by (simp add: writeDataToCSV_def Let_def csvHeader_def split: prod.splits option.splits)

end
